theory Spec2Isabelle
  imports Complex_Main "HOL-Library.AList"
begin

section \<open>Values of the JavaScript runtime\<close>

text \<open>
  The node modal (\<^verbatim>\<open>src/features/modals/NodeModal/index.tsx\<close>) works on the values that
  \<^verbatim>\<open>JSON.parse\<close> produces and on the primitive values that its own coercion returns.

  Texts are Isabelle strings: a character stands for a code unit below 256 (Latin-1).

  A number is \<open>NaN\<close>, one of the two infinities, or a finite value, given by the
  rational number that the binary64 number stands for. The sign of zero is not
  represented.
\<close>

datatype jsnum = NaN | PosInfinity | NegInfinity | Fin rat

datatype prim = Undefined | Null | Bool bool | Num jsnum | Str string

text \<open>
  A property key is a string. The keys that are canonical decimal numerals (\<^verbatim>\<open>"0"\<close>,
  \<^verbatim>\<open>"17"\<close>, but not \<^verbatim>\<open>"01"\<close>) are kept as numbers, since objects, arrays and strings all
  treat them as positions; every other key is a name.
\<close>

datatype pkey = Index nat | Name string

text \<open>
  An object is the list of its own enumerable properties, in the order in which the
  runtime enumerates them: array indices in ascending order first, then the other keys
  in order of creation. \<open>JBuiltin\<close> stands for a function or prototype object of the
  runtime, which only a lookup through the prototype chain can return; such objects have
  no enumerable properties of their own.
\<close>

datatype jsval =
    JPrim prim
  | JArr "jsval list"
  | JObj "(pkey \<times> jsval) list"
  | JBuiltin nat

text \<open>A path segment, of TypeScript type \<^verbatim>\<open>string | number\<close>; the numbers are array positions.\<close>

datatype seg = Key string | Idx nat

text \<open>
  What the source throws or reports: \<^verbatim>\<open>toast.error("Cannot edit root node")\<close>, the
  \<^verbatim>\<open>SyntaxError\<close> of \<^verbatim>\<open>JSON.parse\<close>, \<^verbatim>\<open>new Error("Invalid number")\<close>, and the
  \<^verbatim>\<open>TypeError\<close> of reading a property of \<^verbatim>\<open>null\<close> or \<^verbatim>\<open>undefined\<close>.
\<close>

datatype failure = RootEditRejected | MalformedDocument | InvalidNumber | TypeError

text \<open>
  The parts of the runtime that the source calls and that are not modelled here:
  what a value inherits from its prototype chain under a key it does not own
  (\<open>JPrim Undefined\<close> when the chain has no such property), \<^verbatim>\<open>JSON.parse\<close>
  (\<open>None\<close> when it throws), and the decimal text of a finite number that is not an
  integer below \<open>2^53\<close>. Every statement below holds for every such host.
\<close>

record host =
  inherited :: "jsval \<Rightarrow> pkey \<Rightarrow> jsval"
  JSON_parse :: "string \<Rightarrow> jsval option"
  fraction_text :: "rat \<Rightarrow> string"

text \<open>A host with empty prototypes, for examples whose lookups are all own properties.\<close>

definition bare_host :: host where
  "bare_host = \<lparr>inherited = (\<lambda>_ _. JPrim Undefined),
                 JSON_parse = (\<lambda>_. None),
                 fraction_text = (\<lambda>_. [])\<rparr>"

section \<open>Characters, digits and keys\<close>

definition code :: "char \<Rightarrow> nat" where
  "code c = of_char c"

definition is_digit :: "char \<Rightarrow> bool" where
  "is_digit c = (48 \<le> code c \<and> code c \<le> 57)"

definition digit_char :: "nat \<Rightarrow> char" where
  "digit_char d = char_of (48 + d)"

text \<open>The decimal numeral of a natural number, without leading zeros.\<close>

function dec :: "nat \<Rightarrow> string" where
  "dec n = (if n < 10 then [digit_char n] else dec (n div 10) @ [digit_char (n mod 10)])"
  by pat_completeness auto
termination
  by (relation "measure id") auto

declare dec.simps [simp del]

definition digits_value :: "string \<Rightarrow> nat" where
  "digits_value s = foldl (\<lambda>a c. 10 * a + (code c - 48)) 0 s"

text \<open>\<^verbatim>\<open>ToPropertyKey\<close>: a number segment is its numeral, a string segment is itself.\<close>

definition canonical :: "string \<Rightarrow> bool" where
  "canonical s = (s \<noteq> [] \<and> list_all is_digit s \<and> (s = ''0'' \<or> hd s \<noteq> CHR ''0''))"

fun to_key :: "seg \<Rightarrow> pkey" where
  "to_key (Idx n) = Index n"
| "to_key (Key s) = (if canonical s then Index (digits_value s) else Name s)"

fun key_text :: "pkey \<Rightarrow> string" where
  "key_text (Index n) = dec n"
| "key_text (Name s) = s"

text \<open>An array index is a position below \<open>2^32 - 1\<close>; only those are enumerated first.\<close>

fun is_array_index :: "pkey \<Rightarrow> bool" where
  "is_array_index (Index n) = (n < 2 ^ 32 - 1)"
| "is_array_index (Name s) = False"

section \<open>Reading and replacing by path\<close>

text \<open>
  The own properties that a property read finds: the members of an object, the elements
  and the length of an array, the characters and the length of a string. Numbers,
  booleans and the objects of the runtime own nothing that a document can name.
\<close>

fun own_property :: "jsval \<Rightarrow> pkey \<Rightarrow> jsval option" where
  "own_property (JObj ps) k = map_of ps k"
| "own_property (JArr xs) (Index i) = (if i < length xs then Some (xs ! i) else None)"
| "own_property (JArr xs) (Name s) =
     (if s = ''length'' then Some (JPrim (Num (Fin (of_nat (length xs))))) else None)"
| "own_property (JPrim (Str t)) (Index i) =
     (if i < length t then Some (JPrim (Str [t ! i])) else None)"
| "own_property (JPrim (Str t)) (Name s) =
     (if s = ''length'' then Some (JPrim (Num (Fin (of_nat (length t))))) else None)"
| "own_property v k = None"

text \<open>\<^verbatim>\<open>v[k]\<close> for a value that is neither \<^verbatim>\<open>null\<close> nor \<^verbatim>\<open>undefined\<close>.\<close>

definition get_property :: "host \<Rightarrow> jsval \<Rightarrow> pkey \<Rightarrow> jsval" where
  "get_property h v k = (case own_property v k of Some x \<Rightarrow> x | None \<Rightarrow> inherited h v k)"

fun nullish :: "jsval \<Rightarrow> bool" where
  "nullish (JPrim Undefined) = True"
| "nullish (JPrim Null) = True"
| "nullish v = False"

text \<open>\<^verbatim>\<open>current?.[key]\<close>\<close>

definition opt_index :: "host \<Rightarrow> jsval \<Rightarrow> seg \<Rightarrow> jsval" where
  "opt_index h current key =
     (if nullish current then JPrim Undefined else get_property h current (to_key key))"

text \<open>\<^verbatim>\<open>path.reduce((current, key) => current?.[key], obj)\<close>\<close>

definition getValueByPath :: "host \<Rightarrow> jsval \<Rightarrow> seg list \<Rightarrow> jsval" where
  "getValueByPath h obj path = foldl (opt_index h) obj path"

text \<open>
  The operand of \<^verbatim>\<open>||\<close> is replaced when it is falsy: \<^verbatim>\<open>undefined\<close>, \<^verbatim>\<open>null\<close>,
  \<^verbatim>\<open>false\<close>, zero, \<^verbatim>\<open>NaN\<close> and the empty string.
\<close>

fun truthy :: "jsval \<Rightarrow> bool" where
  "truthy (JPrim Undefined) = False"
| "truthy (JPrim Null) = False"
| "truthy (JPrim (Bool b)) = b"
| "truthy (JPrim (Num x)) = (x \<noteq> NaN \<and> x \<noteq> Fin 0)"
| "truthy (JPrim (Str t)) = (t \<noteq> [])"
| "truthy v = True"

text \<open>
  \<^verbatim>\<open>{ ...obj }\<close> copies the own enumerable properties of \<^verbatim>\<open>obj\<close> into a new object, in
  enumeration order: for an object that is its list of properties, for an array its elements
  under their positions, for a string its characters; every other value contributes none.
\<close>

fun spread :: "jsval \<Rightarrow> (pkey \<times> jsval) list" where
  "spread (JObj ps) = ps"
| "spread (JArr xs) = map (\<lambda>(i, x). (Index i, x)) (enumerate 0 xs)"
| "spread (JPrim (Str t)) = map (\<lambda>(i, c). (Index i, JPrim (Str [c]))) (enumerate 0 t)"
| "spread v = []"

text \<open>
  A new array index takes its place among the array indices, which come first in
  ascending order; any other new key goes to the end.
\<close>

fun insert_index :: "nat \<Rightarrow> jsval \<Rightarrow> (pkey \<times> jsval) list \<Rightarrow> (pkey \<times> jsval) list" where
  "insert_index n v [] = [(Index n, v)]"
| "insert_index n v ((Index m, x) # ps) =
     (if m < n \<and> is_array_index (Index m) then (Index m, x) # insert_index n v ps
      else (Index n, v) # (Index m, x) # ps)"
| "insert_index n v ((Name s, x) # ps) = (Index n, v) # (Name s, x) # ps"

text \<open>
  Creating the data property \<open>k\<close> with value \<open>v\<close>: an existing property keeps its place
  and takes the new value, a new one is added.
\<close>

definition define_prop :: "pkey \<Rightarrow> jsval \<Rightarrow> (pkey \<times> jsval) list \<Rightarrow> (pkey \<times> jsval) list" where
  "define_prop k v ps =
     (case map_of ps k of
        Some old \<Rightarrow> AList.update k v ps
      | None \<Rightarrow> (case k of
                   Index n \<Rightarrow> if is_array_index k then insert_index n v ps else ps @ [(k, v)]
                 | Name s \<Rightarrow> ps @ [(k, v)]))"

text \<open>
  \<^verbatim>\<open>setValueByPath\<close>. The object literal \<^verbatim>\<open>{ ...obj, [key]: e }\<close> spreads \<^verbatim>\<open>obj\<close>, then
  evaluates \<^verbatim>\<open>e\<close>, then creates the property; reading \<^verbatim>\<open>obj[key]\<close> inside \<^verbatim>\<open>e\<close> throws a
  \<^verbatim>\<open>TypeError\<close> when \<^verbatim>\<open>obj\<close> is \<^verbatim>\<open>null\<close> or \<^verbatim>\<open>undefined\<close>.
\<close>

fun setValueByPath :: "host \<Rightarrow> jsval \<Rightarrow> seg list \<Rightarrow> jsval \<Rightarrow> failure + jsval" where
  "setValueByPath h obj [] val = Inr val"
| "setValueByPath h obj [key] val = Inr (JObj (define_prop (to_key key) val (spread obj)))"
| "setValueByPath h obj (key # r # rs) val =
     (if nullish obj then Inl TypeError
      else (let child = get_property h obj (to_key key) in
            case setValueByPath h (if truthy child then child else JObj []) (r # rs) val of
              Inl e \<Rightarrow> Inl e
            | Inr sub \<Rightarrow> Inr (JObj (define_prop (to_key key) sub (spread obj)))))"

section \<open>Coercion of the edited text\<close>

text \<open>
  \<^verbatim>\<open>toLowerCase\<close> on code units below 256: the letters A to Z and the accented capitals
  U+00C0 to U+00DE (without the multiplication sign U+00D7) move up by 32.
\<close>

definition lower_char :: "char \<Rightarrow> char" where
  "lower_char c =
     (if (65 \<le> code c \<and> code c \<le> 90) \<or> (192 \<le> code c \<and> code c \<le> 222 \<and> code c \<noteq> 215)
      then char_of (code c + 32) else c)"

definition toLowerCase :: "string \<Rightarrow> string" where
  "toLowerCase s = map lower_char s"

text \<open>
  \<^verbatim>\<open>Number(value)\<close> on a string (\<^verbatim>\<open>StringToNumber\<close>). White space and line terminators
  below 256 are TAB, LF, VT, FF, CR, SP and NBSP. The trimmed text is empty (the value is
  0), or a binary, octal or hexadecimal integer with its prefix, or a decimal literal with
  an optional sign: \<^verbatim>\<open>Infinity\<close>, or digits with an optional fraction and exponent.
  Anything else is \<open>NaN\<close>. The value of a literal is rounded to binary64 from all of
  its digits.
\<close>

definition is_ws :: "char \<Rightarrow> bool" where
  "is_ws c = (code c \<in> {9, 10, 11, 12, 13, 32, 160})"

definition trim :: "string \<Rightarrow> string" where
  "trim s = rev (dropWhile is_ws (rev (dropWhile is_ws s)))"

text \<open>
  Rounding a mathematical value to binary64, to nearest with ties to even. For a
  magnitude \<open>a\<close> with \<open>2^e \<le> a < 2^(e+1)\<close> the spacing of the binary64 numbers is
  \<open>2^(e-52)\<close>, and \<open>2^(-1074)\<close> for the subnormal numbers; \<open>a\<close> is rounded to a
  multiple of the spacing, and a result of \<open>2^1024\<close> is an infinity.
\<close>

function bit_length :: "nat \<Rightarrow> nat" where
  "bit_length n = (if n = 0 then 0 else Suc (bit_length (n div 2)))"
  by pat_completeness auto
termination
  by (relation "measure id") auto

declare bit_length.simps [simp del]

definition pow2 :: "int \<Rightarrow> rat" where
  "pow2 e = (if 0 \<le> e then 2 ^ nat e else 1 / 2 ^ nat (- e))"

text \<open>The exponent \<open>e\<close> with \<open>2^e \<le> a < 2^(e+1)\<close>, for a positive \<open>a\<close>.\<close>

definition ilog2 :: "rat \<Rightarrow> int" where
  "ilog2 a =
     (let k = int (bit_length (nat (fst (quotient_of a)))) - int (bit_length (nat (snd (quotient_of a))))
      in if pow2 k \<le> a then k else k - 1)"

definition round_half_even :: "rat \<Rightarrow> int" where
  "round_half_even x =
     (let f = \<lfloor>x\<rfloor>; d = x - of_int f
      in if d < 1 / 2 then f
         else if 1 / 2 < d then f + 1
         else if even f then f else f + 1)"

definition RoundMV :: "rat \<Rightarrow> jsnum" where
  "RoundMV q =
     (if q = 0 then Fin 0
      else
        (let a = \<bar>q\<bar>;
             p = max (ilog2 a - 52) (- 1074);
             r = of_int (round_half_even (a / pow2 p)) * pow2 p
         in if 2 ^ 1024 \<le> r then (if q < 0 then NegInfinity else PosInfinity)
            else Fin (if q < 0 then - r else r)))"

definition digit_in :: "nat \<Rightarrow> char \<Rightarrow> nat option" where
  "digit_in radix c =
     (let d = (if is_digit c then Some (code c - 48)
               else if 97 \<le> code c \<and> code c \<le> 102 then Some (code c - 87)
               else if 65 \<le> code c \<and> code c \<le> 70 then Some (code c - 55)
               else None)
      in case d of Some n \<Rightarrow> if n < radix then Some n else None | None \<Rightarrow> None)"

fun radix_value :: "nat \<Rightarrow> nat \<Rightarrow> string \<Rightarrow> nat option" where
  "radix_value radix acc [] = Some acc"
| "radix_value radix acc (c # cs) =
     (case digit_in radix c of
        Some d \<Rightarrow> radix_value radix (radix * acc + d) cs
      | None \<Rightarrow> None)"

definition radix_literal :: "nat \<Rightarrow> string \<Rightarrow> jsnum" where
  "radix_literal radix ds =
     (if ds = [] then NaN
      else case radix_value radix 0 ds of Some n \<Rightarrow> RoundMV (of_nat n) | None \<Rightarrow> NaN)"

definition scale10 :: "nat \<Rightarrow> int \<Rightarrow> rat" where
  "scale10 m e = (if 0 \<le> e then of_nat m * 10 ^ nat e else of_nat m / 10 ^ nat (- e))"

text \<open>The exponent part after the mantissa: nothing, or \<^verbatim>\<open>e\<close>/\<^verbatim>\<open>E\<close>, an optional sign and digits.\<close>

definition exponent_part :: "string \<Rightarrow> int option" where
  "exponent_part s =
     (case s of
        [] \<Rightarrow> Some 0
      | c # t \<Rightarrow>
          if c = CHR ''e'' \<or> c = CHR ''E'' then
            (let ds = (case t of
                         [] \<Rightarrow> []
                       | d # u \<Rightarrow> if d = CHR ''+'' \<or> d = CHR ''-'' then u else t);
                 neg = (case t of [] \<Rightarrow> False | d # u \<Rightarrow> d = CHR ''-'')
             in if ds \<noteq> [] \<and> list_all is_digit ds
                then Some (if neg then - int (digits_value ds) else int (digits_value ds))
                else None)
          else None)"

definition unsigned_decimal :: "string \<Rightarrow> jsnum" where
  "unsigned_decimal s =
     (if s = ''Infinity'' then PosInfinity
      else
        (let ip = takeWhile is_digit s;
             r1 = dropWhile is_digit s;
             fp = (case r1 of [] \<Rightarrow> [] | c # t \<Rightarrow> if c = CHR ''.'' then takeWhile is_digit t else []);
             r2 = (case r1 of [] \<Rightarrow> [] | c # t \<Rightarrow> if c = CHR ''.'' then dropWhile is_digit t else r1)
         in if ip = [] \<and> fp = [] then NaN
            else case exponent_part r2 of
                   None \<Rightarrow> NaN
                 | Some e \<Rightarrow> RoundMV (scale10 (digits_value (ip @ fp)) (e - int (length fp)))))"

fun negate :: "jsnum \<Rightarrow> jsnum" where
  "negate NaN = NaN"
| "negate PosInfinity = NegInfinity"
| "negate NegInfinity = PosInfinity"
| "negate (Fin q) = Fin (- q)"

definition numeric_literal :: "string \<Rightarrow> jsnum" where
  "numeric_literal s =
     (case s of
        [] \<Rightarrow> Fin 0
      | [c] \<Rightarrow> unsigned_decimal s
      | c # d # t \<Rightarrow>
          if c = CHR ''0'' \<and> (d = CHR ''x'' \<or> d = CHR ''X'') then radix_literal 16 t
          else if c = CHR ''0'' \<and> (d = CHR ''o'' \<or> d = CHR ''O'') then radix_literal 8 t
          else if c = CHR ''0'' \<and> (d = CHR ''b'' \<or> d = CHR ''B'') then radix_literal 2 t
          else if c = CHR ''+'' then unsigned_decimal (d # t)
          else if c = CHR ''-'' then negate (unsigned_decimal (d # t))
          else unsigned_decimal s)"

definition Number :: "string \<Rightarrow> jsnum" where
  "Number s = numeric_literal (trim s)"

definition isNaN :: "jsnum \<Rightarrow> bool" where
  "isNaN x = (x = NaN)"

text \<open>\<^verbatim>\<open>parseJsonValue(value, type)\<close>\<close>

definition parseJsonValue :: "string \<Rightarrow> string \<Rightarrow> failure + prim" where
  "parseJsonValue val type =
     (if type = ''boolean'' then Inr (Bool (toLowerCase val = ''true''))
      else if type = ''number'' then
        (let num = Number val in if isNaN num then Inl InvalidNumber else Inr (Num num))
      else if type = ''null'' then Inr Null
      else Inr (Str val))"

section \<open>Texts of values\<close>

text \<open>
  \<^verbatim>\<open>Number::toString\<close> writes the shortest decimal digits that denote the number when read
  back. For an integer of magnitude below \<open>2^53\<close> these are its plain digits; the text of
  any other finite number is the host's.
\<close>

definition Number_toString :: "host \<Rightarrow> jsnum \<Rightarrow> string" where
  "Number_toString h x =
     (case x of
        NaN \<Rightarrow> ''NaN''
      | PosInfinity \<Rightarrow> ''Infinity''
      | NegInfinity \<Rightarrow> ''-Infinity''
      | Fin q \<Rightarrow>
          if of_int \<lfloor>q\<rfloor> = q \<and> \<bar>q\<bar> < 2 ^ 53
          then (if q < 0 then ''-'' @ dec (nat \<lfloor>- q\<rfloor>) else dec (nat \<lfloor>q\<rfloor>))
          else fraction_text h q)"

text \<open>The text of a primitive value inside a template literal, \<^verbatim>\<open>`${value}`\<close>.\<close>

fun ToString :: "host \<Rightarrow> prim \<Rightarrow> string" where
  "ToString h Undefined = ''undefined''"
| "ToString h Null = ''null''"
| "ToString h (Bool b) = (if b then ''true'' else ''false'')"
| "ToString h (Num x) = Number_toString h x"
| "ToString h (Str t) = t"

definition dq :: char where
  "dq = CHR 0x22"

definition nl :: char where
  "nl = CHR 0x0A"

definition bs :: char where
  "bs = CHR 0x5C"

definition hex_char :: "nat \<Rightarrow> char" where
  "hex_char d = (if d < 10 then char_of (48 + d) else char_of (87 + d))"

text \<open>\<^verbatim>\<open>QuoteJSONString\<close>\<close>

definition quote_char :: "char \<Rightarrow> string" where
  "quote_char c =
     (if code c = 8 then [bs, CHR ''b'']
      else if code c = 9 then [bs, CHR ''t'']
      else if code c = 10 then [bs, CHR ''n'']
      else if code c = 12 then [bs, CHR ''f'']
      else if code c = 13 then [bs, CHR ''r'']
      else if code c = 34 then [bs, dq]
      else if code c = 92 then [bs, bs]
      else if code c < 32 then [bs] @ ''u00'' @ [hex_char (code c div 16), hex_char (code c mod 16)]
      else [c])"

definition quote :: "string \<Rightarrow> string" where
  "quote t = dq # concat (map quote_char t) @ [dq]"

fun join :: "string \<Rightarrow> string list \<Rightarrow> string" where
  "join sep [] = []"
| "join sep [t] = t"
| "join sep (t # u # ts) = t @ sep @ join sep (u # ts)"

text \<open>
  \<^verbatim>\<open>JSON.stringify(v, null, 2)\<close>. A value that has no JSON text (\<^verbatim>\<open>undefined\<close>, a
  function) is left out of an object and written \<^verbatim>\<open>null\<close> in an array; at the top the
  result is \<^verbatim>\<open>undefined\<close>, here \<open>None\<close>. A number that is not finite is written
  \<^verbatim>\<open>null\<close>. \<open>ind\<close> is the indentation of the enclosing level.
\<close>

fun omitted :: "jsval \<Rightarrow> bool" where
  "omitted (JPrim Undefined) = True"
| "omitted (JBuiltin n) = True"
| "omitted v = False"

fun finite_num :: "jsnum \<Rightarrow> bool" where
  "finite_num (Fin q) = True"
| "finite_num x = False"

fun serialize :: "host \<Rightarrow> string \<Rightarrow> jsval \<Rightarrow> string" where
  "serialize h ind (JPrim Undefined) = ''null''"
| "serialize h ind (JPrim Null) = ''null''"
| "serialize h ind (JPrim (Bool b)) = (if b then ''true'' else ''false'')"
| "serialize h ind (JPrim (Num x)) = (if finite_num x then Number_toString h x else ''null'')"
| "serialize h ind (JPrim (Str t)) = quote t"
| "serialize h ind (JBuiltin n) = ''null''"
| "serialize h ind (JArr xs) =
     (if xs = [] then ''[]''
      else ''['' @ [nl] @ ind @ ''  ''
           @ join ('','' @ [nl] @ ind @ ''  '') (map (serialize h (ind @ ''  '')) xs)
           @ [nl] @ ind @ '']'')"
| "serialize h ind (JObj ps) =
     (let parts = map (\<lambda>p. quote (key_text (fst p)) @ '': '' @ serialize h (ind @ ''  '') (snd p))
                      (filter (\<lambda>p. \<not> omitted (snd p)) ps)
      in if parts = [] then ''{}''
         else ''{'' @ [nl] @ ind @ ''  '' @ join ('','' @ [nl] @ ind @ ''  '') parts
              @ [nl] @ ind @ ''}'')"

definition JSON_stringify :: "host \<Rightarrow> jsval \<Rightarrow> string option" where
  "JSON_stringify h v = (if omitted v then None else Some (serialize h [] v))"

section \<open>The content view of a node\<close>

text \<open>
  Modelled from the spec: the type \<^verbatim>\<open>NodeData\<close> is declared in \<^verbatim>\<open>types/graph\<close>, which is
  not among the sources. A row of \<^verbatim>\<open>NodeData["text"]\<close> has a key (\<open>None\<close> when the row has
  none), a value, which is a JSON scalar or is missing, and a type, one of \<^verbatim>\<open>string\<close>,
  \<^verbatim>\<open>number\<close>, \<^verbatim>\<open>boolean\<close>, \<^verbatim>\<open>null\<close>, \<^verbatim>\<open>array\<close>, \<^verbatim>\<open>object\<close>.
\<close>

record row =
  row_key :: "string option"
  row_value :: prim
  row_type :: string

text \<open>
  The object literal \<^verbatim>\<open>{}\<close> that \<^verbatim>\<open>normalizeNodeData\<close> fills: whether it is still linked
  to \<^verbatim>\<open>Object.prototype\<close>, and its own properties.

  \<^verbatim>\<open>obj[k] = v\<close> creates or updates the own property \<open>k\<close>, except for the key
  \<^verbatim>\<open>__proto__\<close> while the object is linked to \<^verbatim>\<open>Object.prototype\<close>: that assignment runs
  the accessor of the prototype, which unlinks the object when \<open>v\<close> is \<^verbatim>\<open>null\<close>, ignores
  every other primitive value, and creates no property.
\<close>

definition assign :: "bool \<times> (pkey \<times> jsval) list \<Rightarrow> string \<Rightarrow> prim \<Rightarrow> bool \<times> (pkey \<times> jsval) list" where
  "assign obj k v =
     (if k = ''__proto__'' \<and> fst obj then (if v = Null then (False, snd obj) else obj)
      else (fst obj, define_prop (to_key (Key k)) (JPrim v) (snd obj)))"

text \<open>The body of the \<^verbatim>\<open>forEach\<close>; a key is falsy when it is missing or empty.\<close>

definition add_row :: "bool \<times> (pkey \<times> jsval) list \<Rightarrow> row \<Rightarrow> bool \<times> (pkey \<times> jsval) list" where
  "add_row obj r =
     (if row_type r \<noteq> ''array'' \<and> row_type r \<noteq> ''object'' then
        (case row_key r of
           Some k \<Rightarrow> if k \<noteq> [] then assign obj k (row_value r) else obj
         | None \<Rightarrow> obj)
      else obj)"

definition falsy_key :: "string option \<Rightarrow> bool" where
  "falsy_key k = (k = None \<or> k = Some [])"

text \<open>The object \<^verbatim>\<open>obj\<close> after the \<^verbatim>\<open>forEach\<close>.\<close>

definition filled_obj :: "row list \<Rightarrow> (pkey \<times> jsval) list" where
  "filled_obj nodeRows = snd (foldl add_row (True, []) nodeRows)"

text \<open>\<^verbatim>\<open>normalizeNodeData\<close>; the text of an object is never \<^verbatim>\<open>undefined\<close>.\<close>

definition normalizeNodeData :: "host \<Rightarrow> row list \<Rightarrow> string" where
  "normalizeNodeData h nodeRows =
     (if length nodeRows = 0 then ''{}''
      else if length nodeRows = 1 \<and> falsy_key (row_key (nodeRows ! 0))
        then ToString h (row_value (nodeRows ! 0))
      else (case JSON_stringify h (JObj (filled_obj nodeRows)) of
              Some t \<Rightarrow> t
            | None \<Rightarrow> []))"

section \<open>Saving an edit\<close>

text \<open>
  Modelled from the spec: the selected node (\<^verbatim>\<open>NodeData\<close>, see above) has its rows and
  a path, which may be missing.
\<close>

record node =
  node_text :: "row list"
  node_path :: "seg list option"

text \<open>
  The state that \<^verbatim>\<open>handleSave\<close> reads and writes: the text that \<^verbatim>\<open>getJson()\<close> returns, the
  draft, the flag \<^verbatim>\<open>isEditing\<close>, and what the collaborators have received so far: the
  snapshots handed to \<^verbatim>\<open>setContents\<close>, the toasts, and whether \<^verbatim>\<open>onClose\<close> was called.
\<close>

record snapshot =
  contents :: "string option"
  hasChanges :: bool

datatype toast = ToastError failure | ToastSuccess

record modal =
  json :: string
  editValue :: string
  editType :: string
  isEditing :: bool
  handed :: "snapshot list"
  toasts :: "toast list"
  onClose_called :: bool

text \<open>\<^verbatim>\<open>!nodeData.path || nodeData.path.length === 0\<close>, the test of the rendering code.\<close>

definition isRootNode :: "node \<Rightarrow> bool" where
  "isRootNode n = (case node_path n of None \<Rightarrow> True | Some p \<Rightarrow> length p = 0)"

text \<open>\<^verbatim>\<open>isEditing && !isRootNode\<close>: the form with the Save button is rendered.\<close>

definition edit_form_shown :: "modal \<Rightarrow> node \<Rightarrow> bool" where
  "edit_form_shown st n = (isEditing st \<and> \<not> isRootNode n)"

text \<open>
  The statements of the \<^verbatim>\<open>try\<close> block from \<^verbatim>\<open>JSON.parse\<close> to \<^verbatim>\<open>JSON.stringify\<close>; the
  first that throws ends the block.
\<close>

definition newContents :: "host \<Rightarrow> modal \<Rightarrow> seg list \<Rightarrow> failure + string option" where
  "newContents h st p =
     (case JSON_parse h (json st) of
        None \<Rightarrow> Inl MalformedDocument
      | Some doc \<Rightarrow>
          (case parseJsonValue (editValue st) (editType st) of
             Inl e \<Rightarrow> Inl e
           | Inr newValue \<Rightarrow>
               (case setValueByPath h doc p (JPrim newValue) of
                  Inl e \<Rightarrow> Inl e
                | Inr updatedJson \<Rightarrow> Inr (JSON_stringify h updatedJson))))"

text \<open>
  \<^verbatim>\<open>handleSave\<close>. The guard \<^verbatim>\<open>!nodeData?.path\<close> holds when there is no node or the node
  has no path; an empty array is truthy and passes it.
\<close>

definition handleSave :: "host \<Rightarrow> node option \<Rightarrow> modal \<Rightarrow> modal" where
  "handleSave h nodeData st =
     (case (case nodeData of None \<Rightarrow> None | Some n \<Rightarrow> node_path n) of
        None \<Rightarrow> st\<lparr>toasts := toasts st @ [ToastError RootEditRejected]\<rparr>
      | Some p \<Rightarrow>
          (case newContents h st p of
             Inl e \<Rightarrow> st\<lparr>toasts := toasts st @ [ToastError e]\<rparr>
           | Inr t \<Rightarrow>
               st\<lparr>handed := handed st @ [\<lparr>contents = t, hasChanges = True\<rparr>],
                  toasts := toasts st @ [ToastSuccess],
                  isEditing := False,
                  onClose_called := True\<rparr>))"

text \<open>
  A click on the Save button, \<^verbatim>\<open>onClick={handleSave}\<close>. The component renders nothing
  without a node, and the form that holds the button only under
  \<^verbatim>\<open>isEditing && !isRootNode\<close>; \<open>None\<close> says that there is no button to click.
\<close>

definition click_save :: "host \<Rightarrow> node option \<Rightarrow> modal \<Rightarrow> modal option" where
  "click_save h nodeData st =
     (case nodeData of
        None \<Rightarrow> None
      | Some n \<Rightarrow> if edit_form_shown st n then Some (handleSave h nodeData st) else None)"

section \<open>Notions of the specification\<close>

text \<open>
  The subtree of a document at a path: a segment selects a member of an object or an
  element of an array. A path is present in a document when it has a subtree there.
\<close>

fun member :: "jsval \<Rightarrow> pkey \<Rightarrow> jsval option" where
  "member (JObj ps) k = map_of ps k"
| "member (JArr xs) (Index i) = (if i < length xs then Some (xs ! i) else None)"
| "member v k = None"

fun subtree :: "jsval \<Rightarrow> seg list \<Rightarrow> jsval option" where
  "subtree d [] = Some d"
| "subtree d (k # ks) = (case member d (to_key k) of None \<Rightarrow> None | Some c \<Rightarrow> subtree c ks)"

text \<open>
  A path \<open>q\<close> leaves the spine of \<open>p\<close> when the two part at some segment: the node at
  \<open>q\<close> is then neither on the way to the target of \<open>p\<close> nor inside it.
\<close>

fun off_spine :: "seg list \<Rightarrow> seg list \<Rightarrow> bool" where
  "off_spine (a # p) (b # q) = (if to_key a = to_key b then off_spine p q else True)"
| "off_spine p q = False"

text \<open>
  The third case of the content view as the specification words it: the rows whose type
  is neither \<^verbatim>\<open>array\<close> nor \<^verbatim>\<open>object\<close>, each as an entry from its key to its value, in
  the order of the rows.
\<close>

definition scalar_row :: "row \<Rightarrow> bool" where
  "scalar_row r = (row_type r \<noteq> ''array'' \<and> row_type r \<noteq> ''object'')"

definition the_key :: "row \<Rightarrow> string" where
  "the_key r = (case row_key r of Some k \<Rightarrow> k | None \<Rightarrow> [])"

definition entry :: "row \<Rightarrow> pkey \<times> jsval" where
  "entry r = (to_key (Key (the_key r)), JPrim (row_value r))"

definition row_order_text :: "host \<Rightarrow> row list \<Rightarrow> string" where
  "row_order_text h rows = serialize h [] (JObj (map entry (filter scalar_row rows)))"

definition keyed :: "row \<Rightarrow> bool" where
  "keyed r = (\<not> falsy_key (row_key r))"

text \<open>The rows that have a key and a type other than \<^verbatim>\<open>array\<close> and \<^verbatim>\<open>object\<close>.\<close>

definition kept :: "row list \<Rightarrow> row list" where
  "kept rows = filter (\<lambda>r. scalar_row r \<and> keyed r) rows"

text \<open>
  The object that a sequence of entries describes when each key is given the value of its
  last entry: the keys that are array indices come first, in ascending order, and the
  other keys follow in the order in which they first occur.
\<close>

fun index_of :: "pkey \<Rightarrow> nat" where
  "index_of (Index n) = n"
| "index_of (Name s) = 0"

definition first_occurrences :: "pkey list \<Rightarrow> pkey list" where
  "first_occurrences ks = rev (remdups (rev ks))"

definition enumeration_order :: "pkey list \<Rightarrow> pkey list" where
  "enumeration_order ks =
     sort_key index_of (filter is_array_index ks) @ filter (\<lambda>k. \<not> is_array_index k) ks"

definition object_of :: "(pkey \<times> jsval) list \<Rightarrow> (pkey \<times> jsval) list" where
  "object_of es =
     map (\<lambda>k. (k, the (map_of (rev es) k)))
         (enumeration_order (first_occurrences (map fst es)))"

text \<open>
  Example rows: the fields \<^verbatim>\<open>b\<close> and \<^verbatim>\<open>1\<close> of the object \<^verbatim>\<open>{"b":1,"1":2}\<close>; the same
  fields in the order \<^verbatim>\<open>1\<close>, \<^verbatim>\<open>b\<close>; the rows of the content-view example of the
  specification; a single row without a key.
\<close>

definition rows_b1 :: "row list" where
  "rows_b1 = [\<lparr>row_key = Some ''b'', row_value = Num (Fin 1), row_type = ''number''\<rparr>,
              \<lparr>row_key = Some ''1'', row_value = Num (Fin 2), row_type = ''number''\<rparr>]"

definition row_a :: row where
  "row_a = \<lparr>row_key = Some ''a'', row_value = Num (Fin 1), row_type = ''number''\<rparr>"

definition row_tags :: row where
  "row_tags = \<lparr>row_key = Some ''b'', row_value = Undefined, row_type = ''array''\<rparr>"

definition rows_1b :: "row list" where
  "rows_1b = [\<lparr>row_key = Some ''1'', row_value = Num (Fin 2), row_type = ''number''\<rparr>,
              \<lparr>row_key = Some ''b'', row_value = Num (Fin 1), row_type = ''number''\<rparr>]"

definition row_hello :: row where
  "row_hello = \<lparr>row_key = None, row_value = Str ''hello'', row_type = ''string''\<rparr>"

text \<open>
  The document of the scenario in the specification,
  \<^verbatim>\<open>{"customer":{"name":"Ada","tags":["x","y"]}}\<close>, and a host whose \<^verbatim>\<open>JSON.parse\<close>
  decodes that text.
\<close>

definition scenario_text :: string where
  "scenario_text =
     [CHR ''{'', dq] @ ''customer'' @ [dq, CHR '':'', CHR ''{'', dq] @ ''name'' @ [dq, CHR '':'', dq]
     @ ''Ada'' @ [dq, CHR '','', dq] @ ''tags'' @ [dq, CHR '':'', CHR ''['', dq, CHR ''x'', dq,
     CHR '','', dq, CHR ''y'', dq, CHR '']'', CHR ''}'', CHR ''}'']"

definition scenario_doc :: jsval where
  "scenario_doc =
     JObj [(Name ''customer'',
            JObj [(Name ''name'', JPrim (Str ''Ada'')),
                  (Name ''tags'', JArr [JPrim (Str ''x''), JPrim (Str ''y'')])])]"

text \<open>
  The root node, a node without a path, the node of the customer's name, and a modal in
  editing with the draft \<^verbatim>\<open>Grace\<close> of type \<^verbatim>\<open>string\<close> over the scenario document.
\<close>

definition root_node :: node where
  "root_node = \<lparr>node_text = [], node_path = Some []\<rparr>"

definition pathless_node :: node where
  "pathless_node = \<lparr>node_text = [], node_path = None\<rparr>"

definition name_node :: node where
  "name_node = \<lparr>node_text = [], node_path = Some [Key ''customer'', Key ''name'']\<rparr>"

definition editing_Grace :: modal where
  "editing_Grace =
     \<lparr>json = scenario_text, editValue = ''Grace'', editType = ''string'', isEditing = True,
      handed = [], toasts = [], onClose_called = False\<rparr>"

definition scenario_host :: host where
  "scenario_host =
     bare_host\<lparr>JSON_parse := (\<lambda>t. if t = scenario_text then Some scenario_doc else None)\<rparr>"

section \<open>Properties of reading and replacing\<close>

lemma read_undefined: "foldl (opt_index h) (JPrim Undefined) p = JPrim Undefined"
  by (induction p) (simp_all add: opt_index_def)

lemma read_append:
  "getValueByPath h D (p @ q) = getValueByPath h (getValueByPath h D p) q"
  by (simp add: getValueByPath_def)

lemma read_nullish:
  "nullish c \<Longrightarrow> q \<noteq> [] \<Longrightarrow> getValueByPath h c q = JPrim Undefined"
  by (cases q) (simp_all add: getValueByPath_def opt_index_def read_undefined)

lemma map_of_insert_index:
  "map_of (insert_index n v ps) k = (if k = Index n then Some v else map_of ps k)"
  by (induction n v ps rule: insert_index.induct) auto

lemma map_of_define_prop:
  "map_of (define_prop k v ps) k' = (if k' = k then Some v else map_of ps k')"
  by (auto simp: define_prop_def update_conv' map_of_insert_index map_add_def
           split: option.splits pkey.splits)

lemma read_defined:
  "opt_index h (JObj (define_prop (to_key a) x ps)) a = x"
  by (simp add: opt_index_def get_property_def map_of_define_prop)

lemma read_beside:
  "to_key b \<noteq> to_key a \<Longrightarrow> map_of ps (to_key b) = Some c \<Longrightarrow>
     opt_index h (JObj (define_prop (to_key a) x ps)) b = c"
  by (simp add: opt_index_def get_property_def map_of_define_prop)

lemma replace_read:
  "setValueByPath h D p v = Inr D' \<Longrightarrow> getValueByPath h D' p = v"
proof (induction h D p v arbitrary: D' rule: setValueByPath.induct)
  case (1 h obj val)
  then show ?case by (simp add: getValueByPath_def)
next
  case (2 h obj key val)
  then show ?case by (auto simp: getValueByPath_def read_defined)
next
  case (3 h obj key r rs val)
  then show ?case
    by (auto simp: getValueByPath_def read_defined Let_def split: if_splits sum.splits)
qed

lemma truthy_not_nullish: "truthy v \<Longrightarrow> \<not> nullish v"
  by (cases v rule: nullish.cases) auto

lemma replace_succeeds:
  "\<not> nullish D \<Longrightarrow> \<exists>D'. setValueByPath h D p v = Inr D'"
proof (induction p arbitrary: D)
  case Nil
  then show ?case by simp
next
  case (Cons a p)
  show ?case
  proof (cases p)
    case Nil
    then show ?thesis by simp
  next
    case (Cons r rs)
    let ?c = "get_property h D (to_key a)"
    let ?d = "if truthy ?c then ?c else JObj []"
    have "\<not> nullish ?d" by (simp add: truthy_not_nullish)
    then obtain S where "setValueByPath h ?d p v = Inr S"
      using Cons.IH by blast
    with Cons Cons.prems show ?thesis by (simp add: Let_def)
  qed
qed

lemma member_not_nullish: "member D k = Some c \<Longrightarrow> \<not> nullish D"
  by (cases D rule: nullish.cases) auto

lemma map_of_enumerate_Index:
  "map_of (map (\<lambda>(i, x). (Index i, f x)) (enumerate n xs)) (Index i) =
     (if n \<le> i \<and> i < n + length xs then Some (f (xs ! (i - n))) else None)"
  by (induction xs arbitrary: n) (auto simp: nth_Cons')

lemma map_of_spread_array:
  "map_of (spread (JArr xs)) (Index i) = (if i < length xs then Some (xs ! i) else None)"
  using map_of_enumerate_Index [of "\<lambda>x. x" 0 xs i] by simp

lemma member_spread: "member D k = Some c \<Longrightarrow> map_of (spread D) k = Some c"
  by (cases "(D, k)" rule: member.cases)
     (auto simp: map_of_spread_array simp del: spread.simps(2) split: if_splits)

lemma member_own: "member D k = Some c \<Longrightarrow> get_property h D k = c"
  by (cases "(D, k)" rule: member.cases) (auto simp: get_property_def split: if_splits)

lemma member_truthy: "member D k = Some c \<Longrightarrow> truthy D"
  by (cases "(D, k)" rule: member.cases) auto

lemma read_subtree: "subtree D q = Some t \<Longrightarrow> getValueByPath h D q = t"
proof (induction q arbitrary: D)
  case Nil
  then show ?case by (simp add: getValueByPath_def)
next
  case (Cons b q)
  then obtain c where c: "member D (to_key b) = Some c" "subtree c q = Some t"
    by (auto split: option.splits)
  then have "opt_index h D b = c"
    by (simp add: opt_index_def member_own member_not_nullish)
  with Cons.IH [OF c(2)] show ?case by (simp add: getValueByPath_def)
qed

lemma bare_inherited: "inherited bare_host v k = JPrim Undefined"
  by (simp add: bare_host_def)

lemma scenario_customer:
  "getValueByPath bare_host scenario_doc [Key ''customer''] =
     JObj [(Name ''name'', JPrim (Str ''Ada'')),
           (Name ''tags'', JArr [JPrim (Str ''x''), JPrim (Str ''y'')])]"
  by (simp add: getValueByPath_def opt_index_def get_property_def scenario_doc_def canonical_def
      is_digit_def code_def)

lemma scenario_name:
  "getValueByPath bare_host scenario_doc [Key ''customer'', Key ''name''] = JPrim (Str ''Ada'')"
  by (simp add: getValueByPath_def opt_index_def get_property_def scenario_doc_def canonical_def
      is_digit_def code_def)

lemma scenario_name_position:
  "getValueByPath h scenario_doc [Key ''customer'', Key ''name'', Idx 0] = JPrim (Str ''A'')"
  by (simp add: getValueByPath_def opt_index_def get_property_def scenario_doc_def canonical_def
      is_digit_def code_def)

lemma scenario_saved:
  "setValueByPath h scenario_doc [Key ''customer'', Key ''name''] (JPrim (Str ''Grace'')) =
     Inr (JObj [(Name ''customer'',
                 JObj [(Name ''name'', JPrim (Str ''Grace'')),
                       (Name ''tags'', JArr [JPrim (Str ''x''), JPrim (Str ''y'')])])])"
  by (simp add: scenario_doc_def get_property_def define_prop_def canonical_def is_digit_def
      code_def)

text \<open>
  Claim C3 (round trip). For every document \<open>D\<close>, every path \<open>p\<close> present in \<open>D\<close> and
  every value \<open>v\<close>, replacing at \<open>p\<close> succeeds, and reading \<open>p\<close> back from the result
  yields exactly \<open>v\<close>.
\<close>

theorem replace_then_read:
  "subtree D p = Some t \<Longrightarrow>
     \<exists>D'. setValueByPath h D p v = Inr D' \<and> getValueByPath h D' p = v"
proof (cases p)
  case Nil
  then show ?thesis by (simp add: getValueByPath_def)
next
  case (Cons a q)
  assume "subtree D p = Some t"
  with Cons have "\<not> nullish D"
    by (auto split: option.splits dest: member_not_nullish)
  then obtain D' where "setValueByPath h D p v = Inr D'"
    using replace_succeeds by blast
  then show ?thesis using replace_read by blast
qed

text \<open>
  Claim C3, on the scenario of the specification: the name of the customer is present,
  it is replaced by \<^verbatim>\<open>"Grace"\<close>, and reading it back gives \<^verbatim>\<open>"Grace"\<close>.
\<close>

theorem replace_then_read_witness:
  "subtree scenario_doc [Key ''customer'', Key ''name''] = Some (JPrim (Str ''Ada''))
   \<and> getValueByPath bare_host
        (JObj [(Name ''customer'',
                JObj [(Name ''name'', JPrim (Str ''Grace'')),
                      (Name ''tags'', JArr [JPrim (Str ''x''), JPrim (Str ''y'')])])])
        [Key ''customer'', Key ''name''] = JPrim (Str ''Grace'')"
proof -
  have present: "subtree scenario_doc [Key ''customer'', Key ''name''] = Some (JPrim (Str ''Ada''))"
    by (simp add: scenario_doc_def canonical_def is_digit_def code_def)
  from replace_then_read [OF present, of bare_host "JPrim (Str ''Grace'')"]
  obtain D' where
    1: "setValueByPath bare_host scenario_doc [Key ''customer'', Key ''name''] (JPrim (Str ''Grace''))
          = Inr D'"
    and 2: "getValueByPath bare_host D' [Key ''customer'', Key ''name''] = JPrim (Str ''Grace'')"
    by blast
  from 1 have "D' = JObj [(Name ''customer'',
                           JObj [(Name ''name'', JPrim (Str ''Grace'')),
                                 (Name ''tags'', JArr [JPrim (Str ''x''), JPrim (Str ''y'')])])]"
    by (simp only: scenario_saved sum.inject)
  with 2 present show ?thesis by (simp only: simp_thms)
qed

text \<open>
  Claim C4 (structural sharing). For every document, path \<open>p\<close> and value, every subtree
  of the input at a path \<open>q\<close> that leaves the spine of \<open>p\<close> is found at \<open>q\<close> in the
  output of the replacement, equal to the subtree of the input. (Equality of values is
  what the model can say; it has no notion of reference.)
\<close>

theorem replace_keeps_off_spine:
  "subtree D q = Some t \<Longrightarrow> off_spine p q \<Longrightarrow>
     \<exists>D'. setValueByPath h D p v = Inr D'
          \<and> getValueByPath h D' q = t \<and> getValueByPath h D q = t"
proof (induction p arbitrary: D q)
  case Nil
  then show ?case by simp
next
  case (Cons a p)
  from Cons.prems(2) obtain b q' where q: "q = b # q'"
    by (cases q) auto
  with Cons.prems(1) obtain c where c: "member D (to_key b) = Some c" "subtree c q' = Some t"
    by (auto split: option.splits)
  have D: "\<not> nullish D" using c(1) by (rule member_not_nullish)
  have old: "getValueByPath h D q = t" using Cons.prems(1) by (rule read_subtree)
  obtain D' where D': "setValueByPath h D (a # p) v = Inr D'"
    using replace_succeeds [OF D] by blast
  show ?case
  proof (cases "to_key a = to_key b")
    case False
    obtain x where x: "D' = JObj (define_prop (to_key a) x (spread D))"
      using D' D by (cases p) (auto simp: Let_def split: sum.splits)
    have "opt_index h D' b = c"
      unfolding x using False c(1) by (simp add: read_beside member_spread)
    then have "getValueByPath h D' q = t"
      using read_subtree [OF c(2), of h] by (simp add: q getValueByPath_def)
    with D' old show ?thesis by simp
  next
    case True
    with Cons.prems(2) q have off: "off_spine p q'" by simp
    then obtain r rs where p: "p = r # rs" by (cases p) auto
    from off obtain b' q'' where "q' = b' # q''" by (cases p; cases q') auto
    with c(2) have "truthy c" by (auto split: option.splits dest: member_truthy)
    moreover have child: "get_property h D (to_key a) = c"
      using c(1) True by (simp add: member_own)
    ultimately have step: "setValueByPath h D (a # p) v =
        (case setValueByPath h c p v of Inl e \<Rightarrow> Inl e
         | Inr sub \<Rightarrow> Inr (JObj (define_prop (to_key a) sub (spread D))))"
      using D p by (simp add: Let_def)
    from Cons.IH [OF c(2) off] obtain sub where
      sub: "setValueByPath h c p v = Inr sub" "getValueByPath h sub q' = t" by blast
    have "D' = JObj (define_prop (to_key a) sub (spread D))"
      using D' step sub(1) by simp
    then have "opt_index h D' b = sub"
      using True read_defined [of h b sub "spread D"] by simp
    then have "getValueByPath h D' q = t"
      using sub(2) by (simp add: q getValueByPath_def)
    with D' old show ?thesis by simp
  qed
qed

text \<open>
  Claim C4, on the scenario of the specification: replacing the name of the customer
  leaves the second tag, which is off the spine, where and what it was.
\<close>

theorem replace_keeps_off_spine_witness:
  "subtree scenario_doc [Key ''customer'', Key ''tags'', Idx 1] = Some (JPrim (Str ''y''))
   \<and> off_spine [Key ''customer'', Key ''name''] [Key ''customer'', Key ''tags'', Idx 1]
   \<and> getValueByPath bare_host
        (JObj [(Name ''customer'',
                JObj [(Name ''name'', JPrim (Str ''Grace'')),
                      (Name ''tags'', JArr [JPrim (Str ''x''), JPrim (Str ''y'')])])])
        [Key ''customer'', Key ''tags'', Idx 1] = JPrim (Str ''y'')"
proof -
  have sub: "subtree scenario_doc [Key ''customer'', Key ''tags'', Idx 1] = Some (JPrim (Str ''y''))"
    by (simp add: scenario_doc_def canonical_def is_digit_def code_def)
  have off: "off_spine [Key ''customer'', Key ''name''] [Key ''customer'', Key ''tags'', Idx 1]"
    by (simp add: canonical_def is_digit_def code_def)
  from replace_keeps_off_spine [OF sub off, of bare_host "JPrim (Str ''Grace'')"]
  obtain D' where
    1: "setValueByPath bare_host scenario_doc [Key ''customer'', Key ''name''] (JPrim (Str ''Grace''))
          = Inr D'"
    and 2: "getValueByPath bare_host D' [Key ''customer'', Key ''tags'', Idx 1] = JPrim (Str ''y'')"
    by blast
  from 1 have "D' = JObj [(Name ''customer'',
                           JObj [(Name ''name'', JPrim (Str ''Grace'')),
                                 (Name ''tags'', JArr [JPrim (Str ''x''), JPrim (Str ''y'')])])]"
    by (simp only: scenario_saved sum.inject)
  with 2 sub off show ?thesis by (simp only: simp_thms)
qed

text \<open>
  Claim C5 (shallow copy of the same kind), evaluated where the code departs from it:
  replacing the first tag of the scenario document, a path through the array
  \<^verbatim>\<open>["x","y"]\<close>, returns a document in which \<^verbatim>\<open>tags\<close> is no longer an array but the
  object \<^verbatim>\<open>{"0":"z","1":"y"}\<close>.
\<close>

theorem replace_array_becomes_object:
  "setValueByPath h scenario_doc [Key ''customer'', Key ''tags'', Idx 0] (JPrim (Str ''z'')) =
     Inr (JObj [(Name ''customer'',
                 JObj [(Name ''name'', JPrim (Str ''Ada'')),
                       (Name ''tags'',
                        JObj [(Index 0, JPrim (Str ''z'')), (Index 1, JPrim (Str ''y''))])])])"
  by (simp add: scenario_doc_def get_property_def define_prop_def canonical_def is_digit_def
      code_def)

text \<open>
  Claim C8 (read short-circuits on every non-container), refuted on the scenario document:
  the name of the customer is the string \<^verbatim>\<open>"Ada"\<close>, a scalar, and reading position 0
  below it returns \<^verbatim>\<open>"A"\<close>, not \<^verbatim>\<open>undefined\<close>.
\<close>

theorem read_string_counterexample:
  "getValueByPath bare_host scenario_doc [Key ''customer'', Key ''name'', Idx 0] = JPrim (Str ''A'')
   \<and> getValueByPath bare_host scenario_doc [Key ''customer'', Key ''name'', Idx 0] \<noteq> JPrim Undefined"
  by (simp add: scenario_name_position)

text \<open>
  Claim C8 as amended. Reading follows the path segment by segment. Once the value reached
  is \<^verbatim>\<open>undefined\<close> or \<^verbatim>\<open>null\<close>, the result is \<^verbatim>\<open>undefined\<close> whatever segments remain.
  A segment that names nothing the value reached owns (a missing key, a position out of
  range, any segment below a number or a boolean) and nothing it inherits gives
  \<^verbatim>\<open>undefined\<close>, again whatever segments remain. A string is indexable: a position
  inside it gives the character there, as a string of length one.
\<close>

theorem read_amended:
  "(nullish (getValueByPath h D p) \<and> q \<noteq> [] \<longrightarrow> getValueByPath h D (p @ q) = JPrim Undefined)
   \<and> (own_property (getValueByPath h D p) (to_key k) = None
        \<and> inherited h (getValueByPath h D p) (to_key k) = JPrim Undefined
      \<longrightarrow> getValueByPath h D (p @ k # r) = JPrim Undefined)
   \<and> (getValueByPath h D p = JPrim (Str s) \<and> i < length s
      \<longrightarrow> getValueByPath h D (p @ [Idx i]) = JPrim (Str [s ! i]))"
proof (intro conjI impI)
  assume "nullish (getValueByPath h D p) \<and> q \<noteq> []"
  then show "getValueByPath h D (p @ q) = JPrim Undefined"
    by (simp add: read_append read_nullish)
next
  let ?c = "getValueByPath h D p"
  assume a: "own_property ?c (to_key k) = None \<and> inherited h ?c (to_key k) = JPrim Undefined"
  then have "get_property h ?c (to_key k) = JPrim Undefined"
    by (simp add: get_property_def)
  then have "getValueByPath h ?c [k] = JPrim Undefined"
    by (simp add: getValueByPath_def opt_index_def)
  then have "getValueByPath h D (p @ [k]) = JPrim Undefined"
    by (simp add: read_append)
  then have "getValueByPath h D ((p @ [k]) @ r) = JPrim Undefined"
    unfolding read_append [of h D "p @ [k]" r] by (simp add: getValueByPath_def read_undefined)
  then show "getValueByPath h D (p @ k # r) = JPrim Undefined" by simp
next
  assume "getValueByPath h D p = JPrim (Str s) \<and> i < length s"
  then show "getValueByPath h D (p @ [Idx i]) = JPrim (Str [s ! i])"
    by (simp add: read_append getValueByPath_def opt_index_def get_property_def)
qed

text \<open>
  Claim C8 as amended, on the scenario document: the customer has no \<^verbatim>\<open>age\<close>, so a path
  through it reads \<^verbatim>\<open>undefined\<close>; position 1 of the name \<^verbatim>\<open>"Ada"\<close> reads \<^verbatim>\<open>"d"\<close>.
\<close>

theorem read_amended_witness:
  "getValueByPath bare_host scenario_doc ([Key ''customer''] @ Key ''age'' # [Key ''x''])
     = JPrim Undefined
   \<and> getValueByPath bare_host scenario_doc ([Key ''customer'', Key ''name''] @ [Idx 1])
     = JPrim (Str ''d'')"
proof -
  have "own_property (getValueByPath bare_host scenario_doc [Key ''customer''])
          (to_key (Key ''age'')) = None
        \<and> inherited bare_host (getValueByPath bare_host scenario_doc [Key ''customer''])
             (to_key (Key ''age'')) = JPrim Undefined"
    by (simp add: scenario_customer bare_inherited canonical_def is_digit_def code_def)
  moreover have
    "getValueByPath bare_host scenario_doc [Key ''customer'', Key ''name''] = JPrim (Str ''Ada'')
     \<and> 1 < length ''Ada''"
    by (simp add: scenario_name)
  ultimately show ?thesis
    using read_amended [of bare_host scenario_doc "[Key ''customer'']" "[]" "Key ''age''"
        "[Key ''x'']" "''x''" 0]
      read_amended [of bare_host scenario_doc "[Key ''customer'', Key ''name'']" "[]"
        "Key ''age''" "[]" "''Ada''" 1]
    by simp
qed

section \<open>Properties of the coercion\<close>

lemma code_iff: "c = d \<longleftrightarrow> code c = code d"
  by (simp add: code_def)

lemma code_char_of: "n < 256 \<Longrightarrow> code (char_of n) = n"
  by (simp add: code_def)

lemma code_lower:
  "code (lower_char c) =
     (if (65 \<le> code c \<and> code c \<le> 90) \<or> (192 \<le> code c \<and> code c \<le> 222 \<and> code c \<noteq> 215)
      then code c + 32 else code c)"
  by (simp add: lower_char_def code_char_of)

lemma lower_t: "lower_char c = CHR ''t'' \<longleftrightarrow> c = CHR ''t'' \<or> c = CHR ''T''"
  unfolding code_iff [of _ "CHR ''t''"] code_iff [of _ "CHR ''T''"] code_lower
  by (auto simp: code_def)

lemma lower_r: "lower_char c = CHR ''r'' \<longleftrightarrow> c = CHR ''r'' \<or> c = CHR ''R''"
  unfolding code_iff [of _ "CHR ''r''"] code_iff [of _ "CHR ''R''"] code_lower
  by (auto simp: code_def)

lemma lower_u: "lower_char c = CHR ''u'' \<longleftrightarrow> c = CHR ''u'' \<or> c = CHR ''U''"
  unfolding code_iff [of _ "CHR ''u''"] code_iff [of _ "CHR ''U''"] code_lower
  by (auto simp: code_def)

lemma lower_e: "lower_char c = CHR ''e'' \<longleftrightarrow> c = CHR ''e'' \<or> c = CHR ''E''"
  unfolding code_iff [of _ "CHR ''e''"] code_iff [of _ "CHR ''E''"] code_lower
  by (auto simp: code_def)

lemma map4:
  "map f raw = [w, x, y, z] \<longleftrightarrow>
     (\<exists>a b c d. raw = [a, b, c, d] \<and> f a = w \<and> f b = x \<and> f c = y \<and> f d = z)"
proof
  assume "map f raw = [w, x, y, z]"
  then obtain a r1 where 1: "raw = a # r1" "f a = w" "map f r1 = [x, y, z]"
    by (auto simp: map_eq_Cons_conv)
  then obtain b r2 where 2: "r1 = b # r2" "f b = x" "map f r2 = [y, z]"
    by (auto simp: map_eq_Cons_conv)
  then obtain c r3 where 3: "r2 = c # r3" "f c = y" "map f r3 = [z]"
    by (auto simp: map_eq_Cons_conv)
  then obtain d where 4: "r3 = [d]" "f d = z"
    by (auto simp: map_eq_Cons_conv)
  from 1 2 3 4 show "\<exists>a b c d. raw = [a, b, c, d] \<and> f a = w \<and> f b = x \<and> f c = y \<and> f d = z"
    by simp
next
  assume "\<exists>a b c d. raw = [a, b, c, d] \<and> f a = w \<and> f b = x \<and> f c = y \<and> f d = z"
  then show "map f raw = [w, x, y, z]" by auto
qed

lemma lower_true:
  "toLowerCase raw = ''true'' \<longleftrightarrow>
     (\<exists>a b c d. raw = [a, b, c, d] \<and> a \<in> {CHR ''t'', CHR ''T''} \<and> b \<in> {CHR ''r'', CHR ''R''}
        \<and> c \<in> {CHR ''u'', CHR ''U''} \<and> d \<in> {CHR ''e'', CHR ''E''})"
  unfolding toLowerCase_def map4 lower_t lower_r lower_u lower_e
  by (simp only: insert_iff empty_iff simp_thms)

text \<open>
  Claim C6 (boolean coercion). For every text, coercion with declared type
  \<^verbatim>\<open>boolean\<close> never fails; it returns \<^verbatim>\<open>true\<close> exactly when the text is the word
  \<^verbatim>\<open>true\<close> with each of its four letters in either case, and \<^verbatim>\<open>false\<close> for every other
  text.
\<close>

theorem coerce_boolean:
  "parseJsonValue raw ''boolean'' =
     Inr (Bool (\<exists>a b c d. raw = [a, b, c, d] \<and> a \<in> {CHR ''t'', CHR ''T''}
                  \<and> b \<in> {CHR ''r'', CHR ''R''} \<and> c \<in> {CHR ''u'', CHR ''U''}
                  \<and> d \<in> {CHR ''e'', CHR ''E''}))"
  unfolding parseJsonValue_def lower_true by simp

text \<open>Claim C6, on the four examples of the specification.\<close>

theorem coerce_boolean_witness:
  "parseJsonValue ''TRUE'' ''boolean'' = Inr (Bool True)
   \<and> parseJsonValue ''true'' ''boolean'' = Inr (Bool True)
   \<and> parseJsonValue ''false'' ''boolean'' = Inr (Bool False)
   \<and> parseJsonValue ''yes'' ''boolean'' = Inr (Bool False)"
  using coerce_boolean [of "''TRUE''"] coerce_boolean [of "''true''"]
    coerce_boolean [of "''false''"] coerce_boolean [of "''yes''"]
  by simp















section \<open>Properties of the content view\<close>

lemma keys_define_prop: "fst ` set (define_prop k v ps) = insert k (fst ` set ps)"
proof -
  have "dom (map_of (define_prop k v ps)) = insert k (dom (map_of ps))"
    by (auto simp: map_of_define_prop split: if_splits)
  then show ?thesis by (simp add: dom_map_of_conv_image_fst)
qed

lemma add_row_skip: "falsy_key (row_key r) \<Longrightarrow> add_row obj r = obj"
  by (auto simp: add_row_def falsy_key_def)

lemma filled_obj_skip:
  "falsy_key (row_key r) \<Longrightarrow> filled_obj (xs @ r # ys) = filled_obj (xs @ ys)"
  by (simp add: filled_obj_def add_row_skip)

lemma object_text: "JSON_stringify h (JObj ps) = Some (serialize h [] (JObj ps))"
  by (simp add: JSON_stringify_def)

lemma view_many:
  "rows \<noteq> [] \<Longrightarrow> \<not> (length rows = 1 \<and> falsy_key (row_key (hd rows))) \<Longrightarrow>
     normalizeNodeData h rows = serialize h [] (JObj (filled_obj rows))"
  by (cases rows) (auto simp: normalizeNodeData_def object_text)

lemma keys_add_row:
  "fst ` set (snd (add_row obj r)) \<subseteq>
     fst ` set (snd obj) \<union> (if keyed r then {to_key (Key (the_key r))} else {})"
  by (auto simp: add_row_def assign_def keys_define_prop keyed_def falsy_key_def the_key_def
           split: option.splits if_splits)

lemma keys_foldl:
  "fst ` set (snd (foldl add_row obj rows)) \<subseteq>
     fst ` set (snd obj) \<union> {to_key (Key (the_key r)) | r. r \<in> set rows \<and> keyed r}"
proof (induction rows arbitrary: obj)
  case Nil
  then show ?case by simp
next
  case (Cons r rows)
  have "fst ` set (snd (foldl add_row (add_row obj r) rows)) \<subseteq>
     fst ` set (snd (add_row obj r)) \<union> {to_key (Key (the_key r)) | r. r \<in> set rows \<and> keyed r}"
    by (rule Cons.IH)
  also have "\<dots> \<subseteq> fst ` set (snd obj) \<union> {to_key (Key (the_key x)) | x. x \<in> set (r # rows) \<and> keyed x}"
    using keys_add_row [of obj r] by (auto split: if_splits)
  finally show ?case by simp
qed

lemma sort_key_snoc:
  "f x \<notin> f ` set xs \<Longrightarrow> sort_key f (xs @ [x]) = insort_key f x (sort_key f xs)"
proof (induction xs)
  case Nil
  then show ?case by simp
next
  case (Cons a xs)
  then have "f a \<noteq> f x" by auto
  with Cons show ?case by (simp add: insort_key_left_comm)
qed

lemma first_occurrences_snoc:
  "first_occurrences (ks @ [k]) =
     (if k \<in> set ks then first_occurrences ks else first_occurrences ks @ [k])"
  by (simp add: first_occurrences_def)

lemma first_occurrences_set: "set (first_occurrences ks) = set ks"
  by (simp add: first_occurrences_def)

lemma first_occurrences_distinct: "distinct (first_occurrences ks)"
  by (simp add: first_occurrences_def)

lemma enumeration_order_set: "set (enumeration_order ks) = set ks"
  by (auto simp: enumeration_order_def)

lemma enumeration_order_distinct: "distinct ks \<Longrightarrow> distinct (enumeration_order ks)"
  by (auto simp: enumeration_order_def distinct_sort)

lemma update_listed:
  "distinct xs \<Longrightarrow> k \<in> set xs \<Longrightarrow>
     AList.update k v (map (\<lambda>x. (x, f x)) xs) = map (\<lambda>x. (x, (f(k := v)) x)) xs"
proof (induction xs)
  case Nil
  then show ?case by simp
next
  case (Cons a xs)
  show ?case
  proof (cases "a = k")
    case True
    with Cons.prems have "k \<notin> set xs" by simp
    then have "map (\<lambda>x. (x, (f(k := v)) x)) xs = map (\<lambda>x. (x, f x)) xs" by auto
    with True show ?thesis by simp
  next
    case False
    with Cons show ?thesis by simp
  qed
qed

lemma insert_listed:
  assumes "\<forall>s \<in> set S. is_array_index s \<and> s \<noteq> Index n"
    and "\<forall>k \<in> set N. \<not> is_array_index k"
    and "is_array_index (Index n)"
  shows "insert_index n v (map (\<lambda>x. (x, f x)) (S @ N)) =
           map (\<lambda>x. (x, (f(Index n := v)) x)) (insort_key index_of (Index n) S @ N)"
  using assms(1)
proof (induction S)
  case Nil
  have "map (\<lambda>x. (x, (f(Index n := v)) x)) N = map (\<lambda>x. (x, f x)) N"
    using assms(2,3) by auto
  then show ?case
    using assms(2) by (cases N; cases "hd N") auto
next
  case (Cons s S)
  then obtain m where m: "s = Index m" "is_array_index (Index m)" "m \<noteq> n"
    by (cases s) auto
  have "Index n \<notin> set N" using assms(2,3) by auto
  moreover have "Index n \<notin> set S" using Cons.prems by auto
  ultimately have same: "map (\<lambda>x. (x, (f(Index n := v)) x)) (S @ N) = map (\<lambda>x. (x, f x)) (S @ N)"
    by auto
  show ?case
  proof (cases "m < n")
    case True
    with m Cons show ?thesis by simp
  next
    case False
    with m have "n \<le> m" by simp
    with False m same show ?thesis by simp
  qed
qed


lemma define_object: "define_prop k v (object_of es) = object_of (es @ [(k, v)])"
proof -
  let ?ks = "map fst es"
  let ?F = "first_occurrences ?ks"
  let ?S = "sort_key index_of (filter is_array_index ?F)"
  let ?N = "filter (\<lambda>k. \<not> is_array_index k) ?F"
  let ?f = "\<lambda>x. the (map_of (rev es) x)"
  let ?g = "\<lambda>x. the (map_of (rev (es @ [(k, v)])) x)"
  have obj: "object_of es = map (\<lambda>x. (x, ?f x)) (?S @ ?N)"
    by (simp add: object_of_def enumeration_order_def)
  have g: "\<And>x. the (map_of (rev (es @ [(k, v)])) x) = (if x = k then v else ?f x)"
    by simp
  have keys: "set (?S @ ?N) = set ?ks"
    using enumeration_order_set [of ?F] by (simp add: enumeration_order_def first_occurrences_set)
  have dist: "distinct (?S @ ?N)"
    using enumeration_order_distinct [OF first_occurrences_distinct, of ?ks]
    by (simp add: enumeration_order_def)
  have mo: "map_of (object_of es) k = (if k \<in> set ?ks then Some (?f k) else None)"
    unfolding obj map_of_map_restrict keys by (simp add: restrict_map_def)
  show ?thesis
  proof (cases "k \<in> set ?ks")
    case True
    then have "define_prop k v (object_of es) = AList.update k v (object_of es)"
      by (simp add: define_prop_def mo)
    also have "\<dots> = map (\<lambda>x. (x, (?f(k := v)) x)) (?S @ ?N)"
      unfolding obj using dist True keys by (intro update_listed) auto
    also have "\<dots> = object_of (es @ [(k, v)])"
      using True by (simp add: object_of_def enumeration_order_def first_occurrences_snoc)
    finally show ?thesis .
  next
    case False
    then have F': "first_occurrences (map fst (es @ [(k, v)])) = ?F @ [k]"
      by (simp add: first_occurrences_snoc)
    have notin: "k \<notin> set (?S @ ?N)" using False keys by simp
    then have same: "map (\<lambda>x. (x, (?f(k := v)) x)) (?S @ ?N) = map (\<lambda>x. (x, ?f x)) (?S @ ?N)"
      by auto
    show ?thesis
    proof (cases "is_array_index k")
      case ai: True
      then obtain n where n: "k = Index n" by (cases k) auto
      have S: "\<forall>s \<in> set ?S. is_array_index s \<and> s \<noteq> Index n"
        using notin n by auto
      have N: "\<forall>x \<in> set ?N. \<not> is_array_index x" by simp
      have ain: "is_array_index (Index n)" using ai n by simp
      have "index_of k \<notin> index_of ` set (filter is_array_index ?F)"
      proof
        assume "index_of k \<in> index_of ` set (filter is_array_index ?F)"
        then obtain s where s: "s \<in> set ?F" "is_array_index s" "index_of s = index_of k"
          by auto
        from s(2,3) have "s = k" unfolding n by (cases s) simp_all
        with s(1) False show False by (simp add: first_occurrences_set)
      qed
      then have sort: "sort_key index_of (filter is_array_index (?F @ [k]))
          = insort_key index_of k ?S"
        using ai by (simp add: sort_key_snoc)
      have "define_prop k v (object_of es) = insert_index n v (object_of es)"
        using False ai n mo by (simp add: define_prop_def)
      also have "\<dots> = map (\<lambda>x. (x, (?f(Index n := v)) x)) (insort_key index_of (Index n) ?S @ ?N)"
        unfolding obj by (rule insert_listed [OF S N ain])
      also have "\<dots> = object_of (es @ [(k, v)])"
        unfolding object_of_def enumeration_order_def F' sort using ai n by simp
      finally show ?thesis .
    next
      case nai: False
      have "define_prop k v (object_of es) = object_of es @ [(k, v)]"
        using False nai mo by (cases k) (simp_all add: define_prop_def)
      also have "\<dots> = map (\<lambda>x. (x, (?f(k := v)) x)) (?S @ ?N @ [k])"
        using same by (simp add: obj)
      also have "\<dots> = object_of (es @ [(k, v)])"
        unfolding object_of_def enumeration_order_def F' using nai by simp
      finally show ?thesis .
    qed
  qed
qed

lemma object_of_Nil: "object_of [] = []"
  by (simp add: object_of_def enumeration_order_def first_occurrences_def)

lemma fold_define:
  "foldl (\<lambda>ps e. define_prop (fst e) (snd e) ps) [] es = object_of es"
proof (induction es rule: rev_induct)
  case Nil
  then show ?case by (simp add: object_of_Nil)
next
  case (snoc e es)
  then show ?case by (cases e) (simp add: define_object)
qed

lemma fold_rows:
  "\<forall>r \<in> set (kept rows). the_key r \<noteq> ''__proto__'' \<Longrightarrow>
     foldl add_row (True, acc) rows =
       (True, foldl (\<lambda>ps e. define_prop (fst e) (snd e) ps) acc (map entry (kept rows)))"
proof (induction rows arbitrary: acc)
  case Nil
  then show ?case by (simp add: kept_def)
next
  case (Cons r rows)
  have rest: "\<forall>x \<in> set (kept rows). the_key x \<noteq> ''__proto__''"
    using Cons.prems by (simp add: kept_def)
  show ?case
  proof (cases "scalar_row r \<and> keyed r")
    case False
    then have "add_row (True, acc) r = (True, acc)"
      by (auto simp: add_row_def scalar_row_def keyed_def falsy_key_def split: option.splits)
    moreover have "kept (r # rows) = kept rows" using False by (simp add: kept_def)
    ultimately show ?thesis using Cons.IH [OF rest, of acc] by simp
  next
    case True
    then obtain k where k: "row_key r = Some k" "k \<noteq> []"
      by (auto simp: keyed_def falsy_key_def)
    then have tk: "the_key r = k" by (simp add: the_key_def)
    have "k \<noteq> ''__proto__''" using Cons.prems True tk by (simp add: kept_def)
    with True k have "add_row (True, acc) r = (True, define_prop (fst (entry r)) (snd (entry r)) acc)"
      by (simp add: add_row_def assign_def scalar_row_def entry_def tk)
    moreover have "kept (r # rows) = r # kept rows" using True by (simp add: kept_def)
    ultimately show ?thesis
      using Cons.IH [OF rest, of "define_prop (fst (entry r)) (snd (entry r)) acc"] by simp
  qed
qed

lemma filled_object:
  "\<forall>r \<in> set (kept rows). the_key r \<noteq> ''__proto__'' \<Longrightarrow>
     filled_obj rows = object_of (map entry (kept rows))"
  by (simp add: filled_obj_def fold_rows fold_define)

lemma object_of_in_order:
  assumes "distinct (map fst es)" and "enumeration_order (map fst es) = map fst es"
  shows "object_of es = es"
proof -
  have fo: "first_occurrences (map fst es) = map fst es"
    using assms(1) by (simp add: first_occurrences_def distinct_remdups_id)
  have "map_of (rev es) (fst e) = Some (snd e)" if "e \<in> set es" for e
    using that assms(1) by (intro map_of_is_SomeI) (simp_all add: rev_map [symmetric])
  then have "map (\<lambda>e. (fst e, the (map_of (rev es) (fst e)))) es = map (\<lambda>e. e) es"
    by (intro map_cong) simp_all
  then have "map (\<lambda>k. (k, the (map_of (rev es) k))) (map fst es) = es"
    by (simp add: comp_def)
  then show ?thesis by (simp add: object_of_def fo assms(2))
qed

lemma enumeration_order_names:
  "list_all (\<lambda>k. \<not> is_array_index k) ks \<Longrightarrow> enumeration_order ks = ks"
proof -
  assume "list_all (\<lambda>k. \<not> is_array_index k) ks"
  then have "filter is_array_index ks = []" "filter (\<lambda>k. \<not> is_array_index k) ks = ks"
    by (simp_all add: list_all_iff)
  then show ?thesis by (simp add: enumeration_order_def)
qed

lemma dec_digit: "n < 10 \<Longrightarrow> dec n = [digit_char n]"
  by (simp add: dec.simps)

lemma dec_1: "dec 1 = ''1''" "dec (Suc 0) = ''1''" "dec 2 = ''2''"
  by (simp_all add: dec_digit digit_char_def char_of_eq_iff)

lemma text_1: "Number_toString h (Fin 1) = ''1''" "Number_toString h (Fin 2) = ''2''"
  by (simp_all add: Number_toString_def dec_digit digit_char_def char_of_eq_iff)

lemma filled_b1: "filled_obj rows_b1 = [(Index 1, JPrim (Num (Fin 2))), (Name ''b'', JPrim (Num (Fin 1)))]"
  by (simp add: filled_obj_def rows_b1_def add_row_def assign_def define_prop_def canonical_def
      is_digit_def code_def digits_value_def)

lemma quote_b: "quote ''b'' = [dq, CHR ''b'', dq]" "quote ''1'' = [dq, CHR ''1'', dq]"
  by (simp_all add: quote_def quote_char_def code_def)

lemma view_b1:
  "normalizeNodeData h rows_b1 =
     ''{'' @ [nl] @ ''  '' @ [dq] @ ''1'' @ [dq] @ '': 2,'' @ [nl]
       @ ''  '' @ [dq] @ ''b'' @ [dq] @ '': 1'' @ [nl] @ ''}''"
  by (simp add: normalizeNodeData_def object_text filled_b1 text_1 quote_b dec_1)
     (simp add: rows_b1_def)

lemma row_order_b1:
  "row_order_text h rows_b1 =
     ''{'' @ [nl] @ ''  '' @ [dq] @ ''b'' @ [dq] @ '': 1,'' @ [nl]
       @ ''  '' @ [dq] @ ''1'' @ [dq] @ '': 2'' @ [nl] @ ''}''"
  by (simp add: row_order_text_def rows_b1_def scalar_row_def entry_def the_key_def canonical_def
      is_digit_def code_def digits_value_def text_1 quote_b dec_1)

lemma quote_a: "quote ''a'' = [dq, CHR ''a'', dq]"
  by (simp add: quote_def quote_char_def code_def)

lemma text_row_a:
  "serialize bare_host [] (JObj (map entry [row_a])) =
     ''{'' @ [nl] @ ''  '' @ [dq] @ ''a'' @ [dq] @ '': 1'' @ [nl] @ ''}''"
  by (simp add: entry_def the_key_def row_a_def canonical_def is_digit_def code_def text_1 quote_a)

lemma kept_examples:
  "kept rows_b1 = rows_b1" "kept rows_1b = rows_1b" "kept [row_a, row_tags] = [row_a]"
  "filter keyed rows_1b = rows_1b"
  by (simp_all add: kept_def rows_b1_def rows_1b_def row_a_def row_tags_def scalar_row_def
      keyed_def falsy_key_def)

lemma entries_examples:
  "map entry rows_b1 = [(Name ''b'', JPrim (Num (Fin 1))), (Index 1, JPrim (Num (Fin 2)))]"
  "map entry rows_1b = [(Index 1, JPrim (Num (Fin 2))), (Name ''b'', JPrim (Num (Fin 1)))]"
  by (simp_all add: rows_b1_def rows_1b_def entry_def the_key_def canonical_def is_digit_def
      code_def digits_value_def)

lemma object_b1:
  "object_of [(Name ''b'', JPrim (Num (Fin 1))), (Index 1, JPrim (Num (Fin 2)))] =
     [(Index 1, JPrim (Num (Fin 2))), (Name ''b'', JPrim (Num (Fin 1)))]"
  by (simp add: object_of_def enumeration_order_def first_occurrences_def)

lemma text_1b:
  "serialize h [] (JObj [(Index 1, JPrim (Num (Fin 2))), (Name ''b'', JPrim (Num (Fin 1)))]) =
     ''{'' @ [nl] @ ''  '' @ [dq] @ ''1'' @ [dq] @ '': 2,'' @ [nl]
       @ ''  '' @ [dq] @ ''b'' @ [dq] @ '': 1'' @ [nl] @ ''}''"
  by (simp add: text_1 quote_b dec_1)

text \<open>
  Claim C10 (rows without a key are left out). In the case of several rows, a row whose
  key is missing or empty has no effect on the text: the view of the rows is the text of
  the object filled from the other rows. Every entry of the filled object has the key
  of a row whose key is neither missing nor empty.
\<close>

theorem view_skips_keyless_rows:
  "(falsy_key (row_key r) \<and> xs @ ys \<noteq> [] \<longrightarrow>
      normalizeNodeData h (xs @ r # ys) = serialize h [] (JObj (filled_obj (xs @ ys))))
   \<and> ((k, v) \<in> set (filled_obj rows) \<longrightarrow>
         (\<exists>x \<in> set rows. \<not> falsy_key (row_key x) \<and> k = to_key (Key (the_key x))))"
proof (intro conjI impI)
  assume a: "falsy_key (row_key r) \<and> xs @ ys \<noteq> []"
  then have "length (xs @ r # ys) \<noteq> 1" by (cases xs; cases ys) auto
  then have "normalizeNodeData h (xs @ r # ys) = serialize h [] (JObj (filled_obj (xs @ r # ys)))"
    by (intro view_many) auto
  with a show "normalizeNodeData h (xs @ r # ys) = serialize h [] (JObj (filled_obj (xs @ ys)))"
    by (simp add: filled_obj_skip)
next
  assume "(k, v) \<in> set (filled_obj rows)"
  then have "k \<in> fst ` set (snd (foldl add_row (True, []) rows))"
    by (auto simp: filled_obj_def intro: rev_image_eqI)
  moreover have "fst ` set (snd (foldl add_row (True, []) rows)) \<subseteq>
      {to_key (Key (the_key r)) | r. r \<in> set rows \<and> keyed r}"
    using keys_foldl [of "(True, [])" rows] by (simp del: to_key.simps)
  ultimately have "k \<in> {to_key (Key (the_key r)) | r. r \<in> set rows \<and> keyed r}" by (rule subsetD [rotated])
  then show "\<exists>x \<in> set rows. \<not> falsy_key (row_key x) \<and> k = to_key (Key (the_key x))"
    by (auto simp: keyed_def simp del: to_key.simps)
qed

text \<open>
  Claim C10, on an example: the row \<^verbatim>\<open>a\<close> followed by a row without key renders as the
  object with the one entry \<^verbatim>\<open>a\<close>.
\<close>

theorem view_skips_keyless_rows_witness:
  "falsy_key (row_key row_hello) \<and> [row_a] @ [] \<noteq> []
   \<and> normalizeNodeData bare_host ([row_a] @ row_hello # []) =
       ''{'' @ [nl] @ ''  '' @ [dq] @ ''a'' @ [dq] @ '': 1'' @ [nl] @ ''}''
   \<and> (Name ''a'', JPrim (Num (Fin 1))) \<in> set (filled_obj [row_a, row_hello])
   \<and> \<not> falsy_key (row_key row_a) \<and> Name ''a'' = to_key (Key (the_key row_a))"
proof -
  have 1: "falsy_key (row_key row_hello) \<and> [row_a] @ [] \<noteq> []"
    by (simp add: row_hello_def falsy_key_def)
  have 2: "filled_obj ([row_a] @ []) = map entry [row_a]"
    by (simp add: filled_obj_def add_row_def assign_def define_prop_def entry_def the_key_def
        row_a_def canonical_def is_digit_def code_def)
  have 3: "(Name ''a'', JPrim (Num (Fin 1))) \<in> set (filled_obj [row_a, row_hello])"
    by (simp add: filled_obj_def add_row_def assign_def define_prop_def row_hello_def
        row_a_def canonical_def is_digit_def code_def)
  have 4: "\<not> falsy_key (row_key row_a) \<and> Name ''a'' = to_key (Key (the_key row_a))"
    by (simp add: falsy_key_def the_key_def row_a_def canonical_def is_digit_def code_def)
  from view_skips_keyless_rows [of row_hello "[row_a]" "[]" bare_host "Name ''a''"
      "JPrim (Num (Fin 1))" "[row_a, row_hello]"] 1
  have "normalizeNodeData bare_host ([row_a] @ row_hello # []) =
          serialize bare_host [] (JObj (filled_obj ([row_a] @ [])))"
    by blast
  then have "normalizeNodeData bare_host ([row_a] @ row_hello # []) =
       ''{'' @ [nl] @ ''  '' @ [dq] @ ''a'' @ [dq] @ '': 1'' @ [nl] @ ''}''"
    by (simp only: 2 text_row_a)
  with 1 3 4 show ?thesis by (simp only: simp_thms)
qed

text \<open>
  Claim C7 (content view, keys in row order), refuted on the rows of the object
  \<^verbatim>\<open>{"b":1,"1":2}\<close>: the view lists the key \<^verbatim>\<open>1\<close>, an array index, before the key
  \<^verbatim>\<open>b\<close>, while the order of the rows is \<^verbatim>\<open>b\<close>, \<^verbatim>\<open>1\<close>.
\<close>

theorem view_key_order_counterexample:
  "normalizeNodeData bare_host rows_b1 =
     ''{'' @ [nl] @ ''  '' @ [dq] @ ''1'' @ [dq] @ '': 2,'' @ [nl]
       @ ''  '' @ [dq] @ ''b'' @ [dq] @ '': 1'' @ [nl] @ ''}''
   \<and> row_order_text bare_host rows_b1 =
     ''{'' @ [nl] @ ''  '' @ [dq] @ ''b'' @ [dq] @ '': 1,'' @ [nl]
       @ ''  '' @ [dq] @ ''1'' @ [dq] @ '': 2'' @ [nl] @ ''}''
   \<and> normalizeNodeData bare_host rows_b1 \<noteq> row_order_text bare_host rows_b1"
  unfolding view_b1 row_order_b1 by (simp add: dq_def nl_def)

text \<open>
  Claim C7 as amended. The view of no rows is \<^verbatim>\<open>{}\<close>. The view of a single row whose
  key is missing or empty is the text of its value. In every other case, when no row
  that has a key and a type other than \<^verbatim>\<open>array\<close> and \<^verbatim>\<open>object\<close> has the key
  \<^verbatim>\<open>__proto__\<close>, the view is the two-space-indented text of the object that has one
  entry for each key of such rows, with the value of the last row of that key (an entry
  whose value is \<^verbatim>\<open>undefined\<close> is not printed); the keys
  that are array indices come first, in ascending order, and the other keys follow in
  the order of their first rows. Rows without a key and rows of type \<^verbatim>\<open>array\<close> or
  \<^verbatim>\<open>object\<close> are left out. The order of the keys is the order of the rows whenever
  those keys are distinct and already stand in that order, as they do when none of them
  is an array index.
\<close>

theorem view_amended:
  "normalizeNodeData h [] = ''{}''
   \<and> (falsy_key (row_key r) \<longrightarrow> normalizeNodeData h [r] = ToString h (row_value r))
   \<and> (rows \<noteq> [] \<and> \<not> (length rows = 1 \<and> falsy_key (row_key (hd rows)))
        \<and> (\<forall>x \<in> set (kept rows). the_key x \<noteq> ''__proto__'')
      \<longrightarrow> normalizeNodeData h rows = serialize h [] (JObj (object_of (map entry (kept rows)))))
   \<and> (rows \<noteq> [] \<and> \<not> (length rows = 1 \<and> falsy_key (row_key (hd rows)))
        \<and> (\<forall>x \<in> set (kept rows). the_key x \<noteq> ''__proto__'')
        \<and> distinct (map fst (map entry (kept rows)))
        \<and> enumeration_order (map fst (map entry (kept rows))) = map fst (map entry (kept rows))
      \<longrightarrow> normalizeNodeData h rows = row_order_text h (filter keyed rows))
   \<and> (list_all (\<lambda>k. \<not> is_array_index k) ks \<longrightarrow> enumeration_order ks = ks)"
proof (intro conjI impI)
  show "normalizeNodeData h [] = ''{}''" by (simp add: normalizeNodeData_def)
next
  assume "falsy_key (row_key r)"
  then show "normalizeNodeData h [r] = ToString h (row_value r)"
    by (simp add: normalizeNodeData_def)
next
  assume a: "rows \<noteq> [] \<and> \<not> (length rows = 1 \<and> falsy_key (row_key (hd rows)))
        \<and> (\<forall>x \<in> set (kept rows). the_key x \<noteq> ''__proto__'')"
  then have "normalizeNodeData h rows = serialize h [] (JObj (filled_obj rows))"
    by (intro view_many) auto
  moreover from a have "filled_obj rows = object_of (map entry (kept rows))"
    by (intro filled_object) simp
  ultimately show "normalizeNodeData h rows = serialize h [] (JObj (object_of (map entry (kept rows))))"
    by (simp only:)
next
  assume a: "rows \<noteq> [] \<and> \<not> (length rows = 1 \<and> falsy_key (row_key (hd rows)))
        \<and> (\<forall>x \<in> set (kept rows). the_key x \<noteq> ''__proto__'')
        \<and> distinct (map fst (map entry (kept rows)))
        \<and> enumeration_order (map fst (map entry (kept rows))) = map fst (map entry (kept rows))"
  then have "normalizeNodeData h rows = serialize h [] (JObj (filled_obj rows))"
    by (intro view_many) auto
  moreover from a have "filled_obj rows = object_of (map entry (kept rows))"
    by (intro filled_object) simp
  moreover from a have "object_of (map entry (kept rows)) = map entry (kept rows)"
    by (intro object_of_in_order) simp_all
  moreover have "filter scalar_row (filter keyed rows) = kept rows"
    by (simp add: kept_def conj_commute)
  ultimately show "normalizeNodeData h rows = row_order_text h (filter keyed rows)"
    by (simp only: row_order_text_def)
next
  assume "list_all (\<lambda>k. \<not> is_array_index k) ks"
  then show "enumeration_order ks = ks" by (rule enumeration_order_names)
qed

text \<open>
  Claim C7 as amended, on examples: no rows; a single row without key and with value
  \<^verbatim>\<open>hello\<close>; the rows \<^verbatim>\<open>b\<close>, \<^verbatim>\<open>1\<close>, whose view lists \<^verbatim>\<open>1\<close> first; the rows \<^verbatim>\<open>1\<close>,
  \<^verbatim>\<open>b\<close>, whose view keeps the order of the rows; and the keys \<^verbatim>\<open>b\<close>,
  \<^verbatim>\<open>4294967295\<close>, which keep their order since \<^verbatim>\<open>4294967295\<close> is not an array index.
\<close>

theorem view_amended_witness:
  "normalizeNodeData bare_host [] = ''{}''
   \<and> normalizeNodeData bare_host [row_hello] = ''hello''
   \<and> normalizeNodeData bare_host rows_b1 =
       ''{'' @ [nl] @ ''  '' @ [dq] @ ''1'' @ [dq] @ '': 2,'' @ [nl]
         @ ''  '' @ [dq] @ ''b'' @ [dq] @ '': 1'' @ [nl] @ ''}''
   \<and> normalizeNodeData bare_host rows_1b = row_order_text bare_host rows_1b
   \<and> row_order_text bare_host rows_1b =
       ''{'' @ [nl] @ ''  '' @ [dq] @ ''1'' @ [dq] @ '': 2,'' @ [nl]
         @ ''  '' @ [dq] @ ''b'' @ [dq] @ '': 1'' @ [nl] @ ''}''
   \<and> enumeration_order [Name ''b'', Index 4294967295] = [Name ''b'', Index 4294967295]"
proof -
  note T1 = view_amended [of bare_host row_hello rows_b1 "[Name ''b'', Index 4294967295]"]
  note T2 = view_amended [of bare_host row_hello rows_1b "[Name ''b'', Index 4294967295]"]
  have 1: "falsy_key (row_key row_hello)"
    by (simp add: row_hello_def falsy_key_def)
  have 2: "rows_b1 \<noteq> [] \<and> \<not> (length rows_b1 = 1 \<and> falsy_key (row_key (hd rows_b1)))
      \<and> (\<forall>x \<in> set (kept rows_b1). the_key x \<noteq> ''__proto__'')"
    unfolding kept_examples by (simp add: rows_b1_def the_key_def)
  have 3: "rows_1b \<noteq> [] \<and> \<not> (length rows_1b = 1 \<and> falsy_key (row_key (hd rows_1b)))
      \<and> (\<forall>x \<in> set (kept rows_1b). the_key x \<noteq> ''__proto__'')
      \<and> distinct (map fst (map entry (kept rows_1b)))
      \<and> enumeration_order (map fst (map entry (kept rows_1b))) = map fst (map entry (kept rows_1b))"
    unfolding kept_examples entries_examples
    by (simp add: rows_1b_def the_key_def enumeration_order_def)
  have 4: "list_all (\<lambda>k. \<not> is_array_index k) [Name ''b'', Index 4294967295]"
    by simp
  have 5: "ToString bare_host (row_value row_hello) = ''hello''"
    by (simp add: row_hello_def)
  have 6: "row_order_text bare_host rows_1b =
       ''{'' @ [nl] @ ''  '' @ [dq] @ ''1'' @ [dq] @ '': 2,'' @ [nl]
         @ ''  '' @ [dq] @ ''b'' @ [dq] @ '': 1'' @ [nl] @ ''}''"
    by (simp add: row_order_text_def rows_1b_def scalar_row_def entry_def the_key_def
        canonical_def is_digit_def code_def digits_value_def text_1 quote_b dec_1)
  from T1 have a: "normalizeNodeData bare_host [] = ''{}''" by blast
  from T1 1 have b: "normalizeNodeData bare_host [row_hello] = ToString bare_host (row_value row_hello)"
    by blast
  from T1 2 have c: "normalizeNodeData bare_host rows_b1 =
      serialize bare_host [] (JObj (object_of (map entry (kept rows_b1))))"
    by blast
  from T2 3 have d: "normalizeNodeData bare_host rows_1b =
      row_order_text bare_host (filter keyed rows_1b)"
    by blast
  from T1 4 have e: "enumeration_order [Name ''b'', Index 4294967295] = [Name ''b'', Index 4294967295]"
    by blast
  show ?thesis
    unfolding a b c d e 5 6 kept_examples entries_examples object_b1 text_1b by simp
qed

section \<open>Properties of saving\<close>

lemma handleSave_path:
  "node_path n = Some p \<Longrightarrow>
     handleSave h (Some n) st =
       (case newContents h st p of
          Inl e \<Rightarrow> st\<lparr>toasts := toasts st @ [ToastError e]\<rparr>
        | Inr t \<Rightarrow> st\<lparr>handed := handed st @ [\<lparr>contents = t, hasChanges = True\<rparr>],
                     toasts := toasts st @ [ToastSuccess], isEditing := False,
                     onClose_called := True\<rparr>)"
  by (simp add: handleSave_def)

lemma save_without_path:
  "nodeData = None \<or> (\<exists>n. nodeData = Some n \<and> node_path n = None) \<Longrightarrow>
     handleSave h nodeData st = st\<lparr>toasts := toasts st @ [ToastError RootEditRejected]\<rparr>"
  by (auto simp: handleSave_def)

lemma root_form_hidden: "node_path n = Some [] \<Longrightarrow> \<not> edit_form_shown st n"
  by (simp add: edit_form_shown_def isRootNode_def)

lemma quote_Grace: "quote ''Grace'' = [dq] @ ''Grace'' @ [dq]"
  by (simp add: quote_def quote_char_def code_def)

text \<open>
  Claim C9 (a failed save writes nothing). When decoding the document, coercing the
  draft or replacing at the path fails, \<^verbatim>\<open>handleSave\<close> hands no snapshot to
  \<^verbatim>\<open>setContents\<close>, leaves \<^verbatim>\<open>isEditing\<close> and the document text as they were, does not
  close the modal, and reports the failure.
\<close>

theorem save_failure_keeps_document:
  assumes "node_path n = Some p"
    and "JSON_parse h (json st) = None
         \<or> (\<exists>e. parseJsonValue (editValue st) (editType st) = Inl e)
         \<or> (\<exists>doc v e. JSON_parse h (json st) = Some doc
               \<and> parseJsonValue (editValue st) (editType st) = Inr v
               \<and> setValueByPath h doc p (JPrim v) = Inl e)"
  shows "handed (handleSave h (Some n) st) = handed st
         \<and> isEditing (handleSave h (Some n) st) = isEditing st
         \<and> json (handleSave h (Some n) st) = json st
         \<and> onClose_called (handleSave h (Some n) st) = onClose_called st
         \<and> (\<exists>e. toasts (handleSave h (Some n) st) = toasts st @ [ToastError e])"
proof -
  have "\<exists>e. newContents h st p = Inl e"
  proof (cases "JSON_parse h (json st)")
    case None
    then show ?thesis by (simp add: newContents_def)
  next
    case (Some doc)
    show ?thesis
    proof (cases "parseJsonValue (editValue st) (editType st)")
      case (Inl e)
      with Some show ?thesis by (simp add: newContents_def)
    next
      case (Inr v)
      with Some assms(2) obtain e where "setValueByPath h doc p (JPrim v) = Inl e"
        by auto
      with Some Inr show ?thesis by (simp add: newContents_def)
    qed
  qed
  then obtain e where "newContents h st p = Inl e" ..
  then show ?thesis
    by (simp add: handleSave_path [OF assms(1)])
qed

text \<open>
  Claim C9, on an example: saving the text \<^verbatim>\<open>abc\<close> as a number at the name of the
  customer fails in the coercion; nothing is handed over and the modal stays in editing.
\<close>

theorem save_failure_keeps_document_witness:
  "handed (handleSave scenario_host
      (Some \<lparr>node_text = [], node_path = Some [Key ''customer'', Key ''name'']\<rparr>)
      \<lparr>json = scenario_text, editValue = ''abc'', editType = ''number'', isEditing = True,
       handed = [], toasts = [], onClose_called = False\<rparr>) = []
   \<and> isEditing (handleSave scenario_host
      (Some \<lparr>node_text = [], node_path = Some [Key ''customer'', Key ''name'']\<rparr>)
      \<lparr>json = scenario_text, editValue = ''abc'', editType = ''number'', isEditing = True,
       handed = [], toasts = [], onClose_called = False\<rparr>)"
  using save_failure_keeps_document
    [of "\<lparr>node_text = [], node_path = Some [Key ''customer'', Key ''name'']\<rparr>"
      "[Key ''customer'', Key ''name'']" scenario_host
      "\<lparr>json = scenario_text, editValue = ''abc'', editType = ''number'', isEditing = True,
       handed = [], toasts = [], onClose_called = False\<rparr>"]
  by (simp add: parseJsonValue_def Number_def trim_def numeric_literal_def unsigned_decimal_def
      is_ws_def code_def is_digit_def isNaN_def)

lemma handleSave_empty_path:
  assumes "node_path n = Some []"
    and "JSON_parse h (json st) = Some doc"
    and "parseJsonValue (editValue st) (editType st) = Inr v"
  shows "handleSave h (Some n) st =
           st\<lparr>handed := handed st @ [\<lparr>contents = JSON_stringify h (JPrim v), hasChanges = True\<rparr>],
              toasts := toasts st @ [ToastSuccess], isEditing := False,
              onClose_called := True\<rparr>"
  using assms by (simp add: handleSave_path newContents_def)

text \<open>
  Claim C1 (a save with the empty path fails with \<open>RootEditRejected\<close>), refuted for the
  handler: run on the root node, whose path is the empty sequence, over the scenario
  document and the draft \<^verbatim>\<open>Grace\<close>, \<^verbatim>\<open>handleSave\<close> passes its guard, reports success
  and hands over the snapshot \<^verbatim>\<open>"Grace"\<close>. In the component no failure is reported
  for the root node either: it has no Save button.
\<close>

theorem save_handler_counterexample:
  "toasts (handleSave scenario_host (Some root_node) editing_Grace) = [ToastSuccess]
   \<and> handed (handleSave scenario_host (Some root_node) editing_Grace)
       = [\<lparr>contents = Some ([dq] @ ''Grace'' @ [dq]), hasChanges = True\<rparr>]
   \<and> click_save scenario_host (Some root_node) editing_Grace = None"
proof -
  have none: "click_save scenario_host (Some root_node) editing_Grace = None"
    by (simp add: click_save_def edit_form_shown_def isRootNode_def root_node_def)
  have "handleSave scenario_host (Some root_node) editing_Grace =
      editing_Grace\<lparr>handed := handed editing_Grace @
          [\<lparr>contents = JSON_stringify scenario_host (JPrim (Str ''Grace'')), hasChanges = True\<rparr>],
        toasts := toasts editing_Grace @ [ToastSuccess], isEditing := False,
        onClose_called := True\<rparr>"
    by (rule handleSave_empty_path [where doc = scenario_doc])
       (simp_all add: root_node_def editing_Grace_def scenario_host_def parseJsonValue_def)
  then show ?thesis
    using none by (simp add: editing_Grace_def JSON_stringify_def quote_Grace)
qed

text \<open>
  Claim C1 as amended. For a node whose path is the empty sequence, and for a node
  without a path, the form with the Save button is not rendered: no save can be started
  for it, so the document is not altered. Every save that is started is the handler run
  on a node with a non-empty path. The handler itself fails with \<open>RootEditRejected\<close>,
  changing nothing but the toasts, when the node has no path.
\<close>

theorem root_save_unavailable:
  "(node_path n = Some [] \<longrightarrow> isRootNode n \<and> click_save h (Some n) st = None)
   \<and> (node_path n = None \<longrightarrow>
        click_save h (Some n) st = None
        \<and> handleSave h (Some n) st = st\<lparr>toasts := toasts st @ [ToastError RootEditRejected]\<rparr>)
   \<and> (click_save h nodeData st = Some st' \<longrightarrow>
        (\<exists>n a p. nodeData = Some n \<and> node_path n = Some (a # p)
                 \<and> st' = handleSave h nodeData st))"
proof (intro conjI impI)
  assume "node_path n = Some []"
  then show "isRootNode n" by (simp add: isRootNode_def)
next
  assume "node_path n = Some []"
  then show "click_save h (Some n) st = None"
    by (simp add: click_save_def edit_form_shown_def isRootNode_def)
next
  assume "node_path n = None"
  then show "click_save h (Some n) st = None"
    by (simp add: click_save_def edit_form_shown_def isRootNode_def)
next
  assume "node_path n = None"
  then show "handleSave h (Some n) st = st\<lparr>toasts := toasts st @ [ToastError RootEditRejected]\<rparr>"
    by (simp add: handleSave_def)
next
  assume a: "click_save h nodeData st = Some st'"
  then obtain n where n: "nodeData = Some n" "edit_form_shown st n"
    "st' = handleSave h nodeData st"
    by (auto simp: click_save_def split: option.splits if_splits)
  from n(2) obtain a p where "node_path n = Some (a # p)"
    by (cases "node_path n"; cases "the (node_path n)")
       (auto simp: edit_form_shown_def isRootNode_def)
  with n show "\<exists>n a p. nodeData = Some n \<and> node_path n = Some (a # p)
      \<and> st' = handleSave h nodeData st"
    by blast
qed

text \<open>
  Claim C1 as amended, on the scenario: there is no Save button for the root node nor
  for a node without a path, the handler rejects the node without a path, and for the
  node of the customer's name the button is there.
\<close>

theorem root_save_unavailable_witness:
  "click_save scenario_host (Some root_node) editing_Grace = None
   \<and> click_save scenario_host (Some pathless_node) editing_Grace = None
   \<and> handleSave scenario_host (Some pathless_node) editing_Grace
       = editing_Grace\<lparr>toasts := toasts editing_Grace @ [ToastError RootEditRejected]\<rparr>
   \<and> click_save scenario_host (Some name_node) editing_Grace
       = Some (handleSave scenario_host (Some name_node) editing_Grace)"
proof -
  have 1: "node_path root_node = Some []" by (simp add: root_node_def)
  have 2: "node_path pathless_node = None" by (simp add: pathless_node_def)
  have 3: "click_save scenario_host (Some name_node) editing_Grace
      = Some (handleSave scenario_host (Some name_node) editing_Grace)"
    by (simp add: click_save_def edit_form_shown_def isRootNode_def name_node_def
        editing_Grace_def)
  from root_save_unavailable [of root_node scenario_host editing_Grace "Some name_node"
      "handleSave scenario_host (Some name_node) editing_Grace"] 1
  have a: "click_save scenario_host (Some root_node) editing_Grace = None" by blast
  from root_save_unavailable [of pathless_node scenario_host editing_Grace "Some name_node"
      "handleSave scenario_host (Some name_node) editing_Grace"] 2
  have b: "click_save scenario_host (Some pathless_node) editing_Grace = None
    \<and> handleSave scenario_host (Some pathless_node) editing_Grace
       = editing_Grace\<lparr>toasts := toasts editing_Grace @ [ToastError RootEditRejected]\<rparr>"
    by blast
  from a b 3 show ?thesis by (simp only: simp_thms)
qed

end
